theory Spec2Isabelle
  imports Complex_Main "HOL-Library.Word"
begin

section \<open>JavaScript numbers, typed arrays and remainders\<close>

text \<open>
  The processor of \<^verbatim>\<open>glitchProcessor.ts\<close> computes with JavaScript numbers. They are
  modelled as exact reals, \<^verbatim>\<open>Math.sin\<close>, \<^verbatim>\<open>Math.cos\<close> and \<^verbatim>\<open>Math.PI\<close> as the real
  \<open>sin\<close>, \<open>cos\<close> and \<open>pi\<close>: rounding of the double arithmetic is left out here, and
  the section on double arithmetic below writes the noise effect a second time, and the
  cellular effect, with every operation rounded. The value
  NaN, which arises from reading a typed array outside its bounds or from dividing zero
  by zero, is \<open>None\<close> of \<open>real option\<close>. The parameters are finite numbers. The bytes of
  an \<^verbatim>\<open>ImageData\<close> buffer (a \<^verbatim>\<open>Uint8ClampedArray\<close>) are 8-bit words.
\<close>

type_synonym byte = "8 word"
type_synonym jsnum = "real option"

text \<open>\<^verbatim>\<open>Math.round\<close>: nearest integer, ties towards plus infinity.\<close>

definition Math_round :: "real \<Rightarrow> int" where
  "Math_round r = \<lfloor>r + 1 / 2\<rfloor>"

text \<open>The remainder \<^verbatim>\<open>a % b\<close> on integers: it truncates, so it has the sign of \<open>a\<close>.
  The effects take it by the width inside a loop over the columns and by the height inside
  a loop over the rows, so the divisor is at least 1.\<close>

definition jsrem :: "int \<Rightarrow> int \<Rightarrow> int" where
  "jsrem a b = sgn a * (\<bar>a\<bar> mod \<bar>b\<bar>)"

text \<open>The same remainder on reals: \<open>a - b * trunc (a / b)\<close>.\<close>

definition trunc :: "real \<Rightarrow> int" where
  "trunc r = (if 0 \<le> r then \<lfloor>r\<rfloor> else \<lceil>r\<rceil>)"

definition fmod :: "real \<Rightarrow> real \<Rightarrow> real" where
  "fmod a b = a - b * real_of_int (trunc (a / b))"

text \<open>Reading index \<open>i\<close> of a typed array: \<^verbatim>\<open>undefined\<close> outside the array, which
  every arithmetic operation turns into NaN.\<close>

definition rd :: "byte list \<Rightarrow> int \<Rightarrow> jsnum" where
  "rd d i = (if 0 \<le> i \<and> i < int (length d) then Some (real (unat (d ! nat i))) else None)"

text \<open>The conversion of a store into a \<^verbatim>\<open>Uint8ClampedArray\<close>: NaN becomes 0, the value is
  clamped to 0..255 and rounded to the nearest integer, ties to even.\<close>

definition roundHalfEven :: "real \<Rightarrow> int" where
  "roundHalfEven v =
     (let f = \<lfloor>v\<rfloor> in
      if v - real_of_int f < 1 / 2 then f
      else if 1 / 2 < v - real_of_int f then f + 1
      else if even f then f else f + 1)"

definition toUint8Clamp :: "jsnum \<Rightarrow> byte" where
  "toUint8Clamp v =
     (case v of
        None \<Rightarrow> 0
      | Some r \<Rightarrow> if r \<le> 0 then 0 else if 255 \<le> r then 255 else word_of_int (roundHalfEven r))"

text \<open>A store \<^verbatim>\<open>a[i] = v\<close>; outside the array it is ignored, as \<open>list_update\<close> does.\<close>

definition wr :: "byte list \<Rightarrow> nat \<Rightarrow> jsnum \<Rightarrow> byte list" where
  "wr a i v = a[i := toUint8Clamp v]"

section \<open>Parameters\<close>

datatype EffectType = chromatic | fractal | cellular | wave | noise

record EffectParams =
  effectType :: EffectType
  intensity :: real
  scale :: real
  iterations :: real
  seed :: real

text \<open>The ranges of the three sliders of the page.\<close>

definition inRange :: "EffectParams \<Rightarrow> bool" where
  "inRange p \<longleftrightarrow>
     0 \<le> intensity p \<and> intensity p \<le> 100 \<and>
     10 \<le> scale p \<and> scale p \<le> 200 \<and>
     1 \<le> iterations p \<and> iterations p \<le> 64"

section \<open>The constructor: the dimensions of the working buffer\<close>

text \<open>
  Lines 21 to 38 of the constructor. The quotient \<open>width / height\<close> is infinite when the
  height is 0 and the width positive, and \<open>800 / Infinity\<close> is 0; that case is written out.
  In the other branch \<open>width \<le> height\<close> and one of them exceeds its bound, so the height
  is positive.
\<close>

definition constructorDims :: "nat \<Rightarrow> nat \<Rightarrow> nat \<times> nat" where
  "constructorDims w h =
     (if 800 < w \<or> 600 < h then
        (if h < w then
           (800, if h = 0 then 0 else nat (Math_round (800 / (real w / real h))))
         else
           (nat (Math_round (600 * (real w / real h))), 600))
      else (w, h))"

section \<open>Chromatic displacement: the offsets\<close>

definition offsetAmount :: "EffectParams \<Rightarrow> int" where
  "offsetAmount p = \<lfloor>intensity p * 0.2\<rfloor>"

definition iterationCount :: "EffectParams \<Rightarrow> int" where
  "iterationCount p = \<lfloor>iterations p\<rfloor>"

definition chromaOffset :: "EffectParams \<Rightarrow> nat \<Rightarrow> int" where
  "chromaOffset p i =
     \<lfloor>real_of_int (offsetAmount p * (int i + 1)) / real_of_int (iterationCount p)\<rfloor>"

section \<open>Chromatic displacement\<close>

text \<open>The value \<^verbatim>\<open>Math.round((a + b) / 2)\<close> of lines 103 to 113; NaN when one operand is.\<close>

definition blend :: "jsnum \<Rightarrow> jsnum \<Rightarrow> jsnum" where
  "blend a b =
     (case a of
        None \<Rightarrow> None
      | Some u \<Rightarrow> (case b of None \<Rightarrow> None
                  | Some v \<Rightarrow> Some (real_of_int (Math_round ((u + v) / 2)))))"

text \<open>Lines 89 to 92: the pixel deltas of iteration \<open>i\<close>.\<close>

definition chromaDelta :: "EffectParams \<Rightarrow> nat \<Rightarrow> int \<times> int" where
  "chromaDelta p i =
     (let offset = chromaOffset p i;
          angle = (real i / real_of_int (iterationCount p)) * pi * 2
      in (Math_round (cos angle * real_of_int offset), Math_round (sin angle * real_of_int offset)))"

text \<open>Lines 97 and 98: the coordinates sampled for the destination \<open>(x, y)\<close>.\<close>

definition chromaSrcX :: "nat \<Rightarrow> int \<Rightarrow> nat \<Rightarrow> int" where
  "chromaSrcX w dx x = jsrem (int x + dx + int w) (int w)"

definition chromaSrcY :: "nat \<Rightarrow> int \<Rightarrow> nat \<Rightarrow> int" where
  "chromaSrcY h dy y = jsrem (int y + dy + int h) (int h)"

definition chromaPixel ::
  "byte list \<Rightarrow> nat \<Rightarrow> nat \<Rightarrow> nat \<Rightarrow> int \<Rightarrow> int \<Rightarrow> nat \<Rightarrow> nat \<Rightarrow> byte list \<Rightarrow> byte list" where
  "chromaPixel d w h i dx dy y x newData =
     (let idx = (y * w + x) * 4;
          srcIdx = (chromaSrcY h dy y * int w + chromaSrcX w dx x) * 4;
          channel = i mod 3
      in if channel = 0 then
           wr newData idx (blend (rd newData (int idx)) (rd d srcIdx))
         else if channel = 1 then
           wr newData (idx + 1) (blend (rd newData (int idx + 1)) (rd d (srcIdx + 1)))
         else
           wr newData (idx + 2) (blend (rd newData (int idx + 2)) (rd d (srcIdx + 2))))"

definition chromaIteration ::
  "byte list \<Rightarrow> nat \<Rightarrow> nat \<Rightarrow> EffectParams \<Rightarrow> nat \<Rightarrow> byte list \<Rightarrow> byte list" where
  "chromaIteration d w h p i newData =
     fold (\<lambda>y. fold (\<lambda>x. chromaPixel d w h i (fst (chromaDelta p i)) (snd (chromaDelta p i)) y x)
                   [0..<w])
          [0..<h] newData"

definition applyChromaticAberration :: "nat \<Rightarrow> nat \<Rightarrow> EffectParams \<Rightarrow> byte list \<Rightarrow> byte list" where
  "applyChromaticAberration w h p d =
     fold (chromaIteration d w h p) [0..<nat (iterationCount p)] d"

section \<open>Helpers shared by the three displacement effects\<close>

text \<open>A read at an index that may itself be NaN (then the result is \<^verbatim>\<open>undefined\<close>).\<close>

definition rdAt :: "byte list \<Rightarrow> int option \<Rightarrow> int \<Rightarrow> jsnum" where
  "rdAt d s k = (case s of None \<Rightarrow> None | Some j \<Rightarrow> rd d (j + k))"

text \<open>The four stores \<^verbatim>\<open>newData[dstIdx + k] = data[srcIdx + k]\<close> of the fractal and the
  wave effect.\<close>

definition copyPixel :: "byte list \<Rightarrow> int option \<Rightarrow> nat \<Rightarrow> byte list \<Rightarrow> byte list" where
  "copyPixel d s dstIdx newData =
     wr (wr (wr (wr newData dstIdx (rdAt d s 0))
                (dstIdx + 1) (rdAt d s 1))
            (dstIdx + 2) (rdAt d s 2))
        (dstIdx + 3) (rdAt d s 3)"

text \<open>Lines 164 to 166 and 320 to 322: the index sampled for an integer displacement
  applied to both axes.\<close>

definition diagSrcIdx :: "nat \<Rightarrow> nat \<Rightarrow> nat \<Rightarrow> nat \<Rightarrow> int \<Rightarrow> int" where
  "diagSrcIdx w h x y displacement =
     (let srcX = jsrem (int x + displacement) (int w);
          srcY = jsrem (int y + displacement) (int h)
      in (srcY * int w + srcX) * 4)"

section \<open>Fractal displacement\<close>

text \<open>The escape-time loop of lines 146 to 159, started at \<open>i = 0\<close>, \<open>z = 0\<close> and
  \<open>mandelbrotValue = 0\<close>.\<close>

function mandelbrot :: "real \<Rightarrow> real \<Rightarrow> nat \<Rightarrow> nat \<Rightarrow> real \<Rightarrow> real \<Rightarrow> nat \<Rightarrow> nat" where
  "mandelbrot px py n i zx zy mv =
     (if i < n then
        (if 4 < zx * zx + zy * zy then i
         else mandelbrot px py n (Suc i) (zx * zx - zy * zy + px) (2 * zx * zy + py) i)
      else mv)"
  by pat_completeness auto
termination
  by (relation "measure (\<lambda>(px, py, n, i, zx, zy, mv). n - i)") auto

text \<open>Lines 139 to 163. With \<open>iterations = 0\<close> the quotient is \<open>0 / 0\<close>, NaN.\<close>

definition fractalDisplacement :: "nat \<Rightarrow> nat \<Rightarrow> EffectParams \<Rightarrow> nat \<Rightarrow> nat \<Rightarrow> int option" where
  "fractalDisplacement w h p x y =
     (let centerX = real w / 2;
          centerY = real h / 2;
          sc = scale p * 0.01;
          n = iterationCount p;
          px = (real x - centerX) * sc;
          py = (real y - centerY) * sc;
          mandelbrotValue = mandelbrot px py (nat n) 0 0 0 0
      in if n = 0 then None
         else Some \<lfloor>(real mandelbrotValue / real_of_int n) * intensity p\<rfloor>)"

definition fractalSrcIdx :: "nat \<Rightarrow> nat \<Rightarrow> EffectParams \<Rightarrow> nat \<Rightarrow> nat \<Rightarrow> int option" where
  "fractalSrcIdx w h p x y = map_option (diagSrcIdx w h x y) (fractalDisplacement w h p x y)"

definition fractalPixel ::
  "byte list \<Rightarrow> nat \<Rightarrow> nat \<Rightarrow> EffectParams \<Rightarrow> nat \<Rightarrow> nat \<Rightarrow> byte list \<Rightarrow> byte list" where
  "fractalPixel d w h p y x newData =
     copyPixel d (fractalSrcIdx w h p x y) ((y * w + x) * 4) newData"

definition applyFractalDisplacement :: "nat \<Rightarrow> nat \<Rightarrow> EffectParams \<Rightarrow> byte list \<Rightarrow> byte list" where
  "applyFractalDisplacement w h p d =
     fold (\<lambda>y. fold (\<lambda>x. fractalPixel d w h p y x) [0..<w]) [0..<h] d"

section \<open>Wave distortion\<close>

text \<open>Lines 256 to 265: the two accumulated displacements.\<close>

definition waveDisplace :: "nat \<Rightarrow> nat \<Rightarrow> EffectParams \<Rightarrow> nat \<Rightarrow> nat \<Rightarrow> real \<times> real" where
  "waveDisplace w h p x y =
     fold (\<lambda>i (displaceX, displaceY).
             let freq = (scale p * 0.1) * (real i + 1);
                 amp = (intensity p * 0.1) / (real i + 1)
             in (displaceX + sin ((real y * freq) / real h) * amp,
                 displaceY + cos ((real x * freq) / real w) * amp))
          [0..<nat (iterationCount p)] (0, 0)"

definition waveSrcX :: "nat \<Rightarrow> nat \<Rightarrow> EffectParams \<Rightarrow> nat \<Rightarrow> nat \<Rightarrow> int" where
  "waveSrcX w h p x y = \<lfloor>fmod (real x + fst (waveDisplace w h p x y) + real w) (real w)\<rfloor>"

definition waveSrcY :: "nat \<Rightarrow> nat \<Rightarrow> EffectParams \<Rightarrow> nat \<Rightarrow> nat \<Rightarrow> int" where
  "waveSrcY w h p x y = \<lfloor>fmod (real y + snd (waveDisplace w h p x y) + real h) (real h)\<rfloor>"

definition waveSrcIdx :: "nat \<Rightarrow> nat \<Rightarrow> EffectParams \<Rightarrow> nat \<Rightarrow> nat \<Rightarrow> int" where
  "waveSrcIdx w h p x y = (waveSrcY w h p x y * int w + waveSrcX w h p x y) * 4"

definition wavePixel ::
  "byte list \<Rightarrow> nat \<Rightarrow> nat \<Rightarrow> EffectParams \<Rightarrow> nat \<Rightarrow> nat \<Rightarrow> byte list \<Rightarrow> byte list" where
  "wavePixel d w h p y x newData =
     copyPixel d (Some (waveSrcIdx w h p x y)) ((y * w + x) * 4) newData"

definition applyWaveDistortion :: "nat \<Rightarrow> nat \<Rightarrow> EffectParams \<Rightarrow> byte list \<Rightarrow> byte list" where
  "applyWaveDistortion w h p d =
     fold (\<lambda>y. fold (\<lambda>x. wavePixel d w h p y x) [0..<w]) [0..<h] d"

section \<open>Layered-noise displacement\<close>

text \<open>Lines 298 to 315: the octave loop over (noiseValue, amplitude, frequency, maxValue).\<close>

definition noiseOctaves ::
  "nat \<Rightarrow> nat \<Rightarrow> EffectParams \<Rightarrow> nat \<Rightarrow> nat \<Rightarrow> real \<times> real \<times> real \<times> real" where
  "noiseOctaves w h p x y =
     fold (\<lambda>i (noiseValue, amplitude, frequency, maxValue).
             let sampleX = (real x * frequency * (scale p * 0.01)) / real w;
                 sampleY = (real y * frequency * (scale p * 0.01)) / real h
             in (noiseValue + amplitude * sin (sampleX * pi) * cos (sampleY * pi),
                 amplitude * 0.5, frequency * 2, maxValue + amplitude))
          [0..<nat (iterationCount p)] (0, 1, 1, 0)"

text \<open>Line 317. Without an octave both sums are 0 and the quotient is NaN.\<close>

definition noiseValue :: "nat \<Rightarrow> nat \<Rightarrow> EffectParams \<Rightarrow> nat \<Rightarrow> nat \<Rightarrow> jsnum" where
  "noiseValue w h p x y =
     (case noiseOctaves w h p x y of
        (nv, amplitude, frequency, maxValue) \<Rightarrow>
          if maxValue = 0 then None else Some ((nv / maxValue + 1) / 2))"

definition noiseSrcIdx :: "nat \<Rightarrow> nat \<Rightarrow> EffectParams \<Rightarrow> nat \<Rightarrow> nat \<Rightarrow> int option" where
  "noiseSrcIdx w h p x y =
     map_option (\<lambda>v. diagSrcIdx w h x y \<lfloor>v * intensity p\<rfloor>) (noiseValue w h p x y)"

text \<open>Line 326 and the shift \<^verbatim>\<open>colorShift * (params.intensity / 100)\<close>.\<close>

definition colorShift :: "nat \<Rightarrow> nat \<Rightarrow> EffectParams \<Rightarrow> nat \<Rightarrow> nat \<Rightarrow> int option" where
  "colorShift w h p x y = map_option (\<lambda>v. \<lfloor>v * 255\<rfloor>) (noiseValue w h p x y)"

definition shiftAmount :: "nat \<Rightarrow> nat \<Rightarrow> EffectParams \<Rightarrow> nat \<Rightarrow> nat \<Rightarrow> jsnum" where
  "shiftAmount w h p x y =
     map_option (\<lambda>c. real_of_int c * (intensity p / 100)) (colorShift w h p x y)"

text \<open>\<^verbatim>\<open>Math.min(255, a + b)\<close>, NaN when an operand is.\<close>

definition min255 :: "jsnum \<Rightarrow> jsnum" where
  "min255 v = map_option (min 255) v"

definition plus :: "jsnum \<Rightarrow> jsnum \<Rightarrow> jsnum" where
  "plus a b = (case a of None \<Rightarrow> None | Some u \<Rightarrow> map_option (\<lambda>v. u + v) b)"

definition noiseRed :: "byte list \<Rightarrow> nat \<Rightarrow> nat \<Rightarrow> EffectParams \<Rightarrow> nat \<Rightarrow> nat \<Rightarrow> jsnum" where
  "noiseRed d w h p x y =
     min255 (plus (rdAt d (noiseSrcIdx w h p x y) 0) (shiftAmount w h p x y))"

definition noiseGreen :: "byte list \<Rightarrow> nat \<Rightarrow> nat \<Rightarrow> EffectParams \<Rightarrow> nat \<Rightarrow> nat \<Rightarrow> jsnum" where
  "noiseGreen d w h p x y =
     min255 (plus (rdAt d (noiseSrcIdx w h p x y) 1)
                  (map_option (\<lambda>s. s / 2) (shiftAmount w h p x y)))"

definition noiseBlue :: "byte list \<Rightarrow> nat \<Rightarrow> nat \<Rightarrow> EffectParams \<Rightarrow> nat \<Rightarrow> nat \<Rightarrow> jsnum" where
  "noiseBlue d w h p x y =
     min255 (plus (rdAt d (noiseSrcIdx w h p x y) 2)
                  (map_option (\<lambda>s. - (s / 2)) (shiftAmount w h p x y)))"

definition noisePixel ::
  "byte list \<Rightarrow> nat \<Rightarrow> nat \<Rightarrow> EffectParams \<Rightarrow> nat \<Rightarrow> nat \<Rightarrow> byte list \<Rightarrow> byte list" where
  "noisePixel d w h p y x newData =
     (let dstIdx = (y * w + x) * 4
      in wr (wr (wr (wr newData dstIdx (noiseRed d w h p x y))
                    (dstIdx + 1) (noiseGreen d w h p x y))
                (dstIdx + 2) (noiseBlue d w h p x y))
            (dstIdx + 3) (rdAt d (noiseSrcIdx w h p x y) 3))"

definition applyPerlinNoiseGlitch :: "nat \<Rightarrow> nat \<Rightarrow> EffectParams \<Rightarrow> byte list \<Rightarrow> byte list" where
  "applyPerlinNoiseGlitch w h p d =
     fold (\<lambda>y. fold (\<lambda>x. noisePixel d w h p y x) [0..<w]) [0..<h] d"

section \<open>Cellular evolution\<close>

text \<open>Lines 204 to 211: the eight neighbours of an interior cell, in the order of the
  two loops over \<open>dy\<close> and \<open>dx\<close>.\<close>

definition neighbors :: "nat list \<Rightarrow> nat \<Rightarrow> nat \<Rightarrow> nat \<Rightarrow> nat" where
  "neighbors grid w x y =
     sum_list (map (\<lambda>(dy, dx). grid ! nat ((int y + dy) * int w + (int x + dx)))
                   (filter (\<lambda>(dy, dx). \<not> (dx = 0 \<and> dy = 0))
                           (List.product [-1, 0, 1] [-1, 0, 1])))"

text \<open>Lines 214 to 218.\<close>

definition lifeCell :: "nat list \<Rightarrow> nat \<Rightarrow> nat \<Rightarrow> nat \<Rightarrow> nat" where
  "lifeCell grid w x y =
     (if grid ! (y * w + x) = 1 then
        (if neighbors grid w x y = 2 \<or> neighbors grid w x y = 3 then 1 else 0)
      else
        (if neighbors grid w x y = 3 then 1 else 0))"

text \<open>One pass of the loop of line 198: \<open>newGrid\<close> starts as a copy of \<open>grid\<close>, the
  interior cells are stored into it, and it replaces \<open>grid\<close>.\<close>

definition generation :: "nat \<Rightarrow> nat \<Rightarrow> nat list \<Rightarrow> nat list" where
  "generation w h grid =
     fold (\<lambda>y. fold (\<lambda>x newGrid. newGrid[y * w + x := lifeCell grid w x y]) [1..<w - 1])
          [1..<h - 1] grid"

definition evolve :: "nat \<Rightarrow> nat \<Rightarrow> EffectParams \<Rightarrow> nat list \<Rightarrow> nat list" where
  "evolve w h p grid = (generation w h ^^ nat (iterationCount p)) grid"

section \<open>Double arithmetic as a parameter\<close>

text \<open>
  Where a result depends on how a product or a quotient is rounded, the exact reals above
  are not the program. The noise effect is therefore written a second time, and the colour
  part of the cellular effect at once, over the primitives of the double arithmetic, taken
  as a parameter: \<open>rnd\<close> rounds a real to the
  nearest double, so that \<^verbatim>\<open>a * b\<close> is \<open>rnd (a * b)\<close> and the literal \<^verbatim>\<open>0.299\<close> is
  \<open>rnd 0.299\<close>; \<open>msin\<close> and \<open>mcos\<close> are \<^verbatim>\<open>Math.sin\<close> and \<^verbatim>\<open>Math.cos\<close>, and
  \<^verbatim>\<open>Math.PI\<close> is \<open>rnd pi\<close>. \<^verbatim>\<open>Math.floor\<close>, \<^verbatim>\<open>Math.round\<close>, \<^verbatim>\<open>Math.min\<close> and the
  comparisons are exact on doubles. Integers, bytes and the parameters are doubles already.
\<close>

record doubleOps =
  rnd :: "real \<Rightarrow> real"
  msin :: "real \<Rightarrow> real"
  mcos :: "real \<Rightarrow> real"

text \<open>The exact reals as an instance.\<close>

definition exactOps :: doubleOps where
  "exactOps = \<lparr>rnd = (\<lambda>x. x), msin = sin, mcos = cos\<rparr>"

text \<open>What the results below use of rounding to nearest: it is monotone, leaves a double
  as it is, commutes with negation and leaves 1; sine and cosine stay within -1 and 1.\<close>

definition nearest :: "doubleOps \<Rightarrow> bool" where
  "nearest fl \<longleftrightarrow>
     (\<forall>x y. x \<le> y \<longrightarrow> rnd fl x \<le> rnd fl y) \<and>
     (\<forall>x. rnd fl (rnd fl x) = rnd fl x) \<and>
     (\<forall>x. rnd fl (- x) = - rnd fl x) \<and>
     rnd fl 1 = 1 \<and>
     (\<forall>x. \<bar>msin fl x\<bar> \<le> 1) \<and>
     (\<forall>x. \<bar>mcos fl x\<bar> \<le> 1)"

subsection \<open>Layered-noise displacement over doubles\<close>

text \<open>Lines 293 to 315.\<close>

definition noiseOctavesD ::
  "doubleOps \<Rightarrow> nat \<Rightarrow> nat \<Rightarrow> EffectParams \<Rightarrow> nat \<Rightarrow> nat \<Rightarrow> real \<times> real \<times> real \<times> real" where
  "noiseOctavesD fl w h p x y =
     fold (\<lambda>i (noiseValue, amplitude, frequency, maxValue).
             let sc = rnd fl (scale p * rnd fl 0.01);
                 sampleX = rnd fl (rnd fl (rnd fl (real x * frequency) * sc) / real w);
                 sampleY = rnd fl (rnd fl (rnd fl (real y * frequency) * sc) / real h);
                 s = msin fl (rnd fl (sampleX * rnd fl pi));
                 c = mcos fl (rnd fl (sampleY * rnd fl pi))
             in (rnd fl (noiseValue + rnd fl (rnd fl (amplitude * s) * c)),
                 rnd fl (amplitude * 0.5), rnd fl (frequency * 2), rnd fl (maxValue + amplitude)))
          [0..<nat (iterationCount p)] (0, 1, 1, 0)"

text \<open>Line 317.\<close>

definition noiseValueD :: "doubleOps \<Rightarrow> nat \<Rightarrow> nat \<Rightarrow> EffectParams \<Rightarrow> nat \<Rightarrow> nat \<Rightarrow> jsnum" where
  "noiseValueD fl w h p x y =
     (case noiseOctavesD fl w h p x y of
        (nv, amplitude, frequency, maxValue) \<Rightarrow>
          if maxValue = 0 then None
          else Some (rnd fl (rnd fl (rnd fl (nv / maxValue) + 1) / 2)))"

text \<open>Lines 318 to 322.\<close>

definition noiseSrcIdxD :: "doubleOps \<Rightarrow> nat \<Rightarrow> nat \<Rightarrow> EffectParams \<Rightarrow> nat \<Rightarrow> nat \<Rightarrow> int option" where
  "noiseSrcIdxD fl w h p x y =
     map_option (\<lambda>v. diagSrcIdx w h x y \<lfloor>rnd fl (v * intensity p)\<rfloor>) (noiseValueD fl w h p x y)"

text \<open>Line 326 and the product \<^verbatim>\<open>colorShift * (params.intensity / 100)\<close>.\<close>

definition colorShiftD :: "doubleOps \<Rightarrow> nat \<Rightarrow> nat \<Rightarrow> EffectParams \<Rightarrow> nat \<Rightarrow> nat \<Rightarrow> int option" where
  "colorShiftD fl w h p x y = map_option (\<lambda>v. \<lfloor>rnd fl (v * 255)\<rfloor>) (noiseValueD fl w h p x y)"

definition shiftAmountD :: "doubleOps \<Rightarrow> nat \<Rightarrow> nat \<Rightarrow> EffectParams \<Rightarrow> nat \<Rightarrow> nat \<Rightarrow> jsnum" where
  "shiftAmountD fl w h p x y =
     map_option (\<lambda>c. rnd fl (real_of_int c * rnd fl (intensity p / 100))) (colorShiftD fl w h p x y)"

text \<open>The sum \<^verbatim>\<open>a + b\<close> and the difference \<^verbatim>\<open>a - b\<close>, NaN when an operand is.\<close>

definition plusD :: "doubleOps \<Rightarrow> jsnum \<Rightarrow> jsnum \<Rightarrow> jsnum" where
  "plusD fl a b = (case a of None \<Rightarrow> None | Some u \<Rightarrow> map_option (\<lambda>v. rnd fl (u + v)) b)"

definition minusD :: "doubleOps \<Rightarrow> jsnum \<Rightarrow> jsnum \<Rightarrow> jsnum" where
  "minusD fl a b = (case a of None \<Rightarrow> None | Some u \<Rightarrow> map_option (\<lambda>v. rnd fl (u - v)) b)"

text \<open>Lines 327 to 339.\<close>

definition noisePixelD ::
  "doubleOps \<Rightarrow> byte list \<Rightarrow> nat \<Rightarrow> nat \<Rightarrow> EffectParams \<Rightarrow> nat \<Rightarrow> nat \<Rightarrow> byte list \<Rightarrow> byte list" where
  "noisePixelD fl d w h p y x newData =
     (let dstIdx = (y * w + x) * 4;
          srcIdx = noiseSrcIdxD fl w h p x y;
          shift = shiftAmountD fl w h p x y;
          half = map_option (\<lambda>s. rnd fl (s / 2)) shift
      in wr (wr (wr (wr newData dstIdx (min255 (plusD fl (rdAt d srcIdx 0) shift)))
                    (dstIdx + 1) (min255 (plusD fl (rdAt d srcIdx 1) half)))
                (dstIdx + 2) (min255 (minusD fl (rdAt d srcIdx 2) half)))
            (dstIdx + 3) (rdAt d srcIdx 3))"

definition applyPerlinNoiseGlitchD ::
  "doubleOps \<Rightarrow> nat \<Rightarrow> nat \<Rightarrow> EffectParams \<Rightarrow> byte list \<Rightarrow> byte list" where
  "applyPerlinNoiseGlitchD fl w h p d =
     fold (\<lambda>y. fold (\<lambda>x. noisePixelD fl d w h p y x) [0..<w]) [0..<h] d"

subsection \<open>Cellular evolution over doubles\<close>

text \<open>Lines 189 to 194: the binary grid, a \<^verbatim>\<open>Uint8Array\<close> of \<open>width * height\<close> cells
  that starts zeroed. The sum is taken from the left; a comparison with NaN is false.\<close>

definition grayD :: "doubleOps \<Rightarrow> byte list \<Rightarrow> nat \<Rightarrow> jsnum" where
  "grayD fl d i =
     (case rd d (int i) of
        None \<Rightarrow> None
      | Some r \<Rightarrow>
          (case rd d (int i + 1) of
             None \<Rightarrow> None
           | Some g \<Rightarrow>
               (case rd d (int i + 2) of
                  None \<Rightarrow> None
                | Some b \<Rightarrow>
                    Some (rnd fl (rnd fl (rnd fl (rnd fl (r * rnd fl 0.299) + rnd fl (g * rnd fl 0.587))
                                          + rnd fl (b * rnd fl 0.114)) / 255)))))"

definition initCellD :: "doubleOps \<Rightarrow> byte list \<Rightarrow> nat \<Rightarrow> nat" where
  "initCellD fl d k = (case grayD fl d (4 * k) of None \<Rightarrow> 0 | Some v \<Rightarrow> if 0.5 < v then 1 else 0)"

definition initGridD :: "doubleOps \<Rightarrow> nat \<Rightarrow> nat \<Rightarrow> byte list \<Rightarrow> nat list" where
  "initGridD fl w h d =
     fold (\<lambda>k grid. grid[k := initCellD fl d k]) [0..<(length d + 3) div 4] (replicate (w * h) 0)"

text \<open>Lines 226 to 235: the colour mapping,
  \<^verbatim>\<open>Math.round(data[j] * (1 - (cellValue * params.intensity) / 100))\<close>; the alpha byte is
  not stored.\<close>

definition darkenD :: "doubleOps \<Rightarrow> byte list \<Rightarrow> EffectParams \<Rightarrow> nat \<Rightarrow> nat \<Rightarrow> jsnum" where
  "darkenD fl d p cellValue j =
     map_option
       (\<lambda>v. real_of_int
              (Math_round (rnd fl (v * rnd fl (1 - rnd fl (rnd fl (real cellValue * intensity p) / 100))))))
       (rd d (int j))"

definition recolorCellD ::
  "doubleOps \<Rightarrow> byte list \<Rightarrow> EffectParams \<Rightarrow> nat list \<Rightarrow> nat \<Rightarrow> byte list \<Rightarrow> byte list" where
  "recolorCellD fl d p grid i newData =
     (let idx = i * 4; cellValue = grid ! i
      in wr (wr (wr newData idx (darkenD fl d p cellValue idx))
                (idx + 1) (darkenD fl d p cellValue (idx + 1)))
            (idx + 2) (darkenD fl d p cellValue (idx + 2)))"

definition recolorD :: "doubleOps \<Rightarrow> byte list \<Rightarrow> EffectParams \<Rightarrow> nat list \<Rightarrow> byte list" where
  "recolorD fl d p grid = fold (recolorCellD fl d p grid) [0..<length grid] d"

text \<open>The generations are integer arithmetic: \<open>evolve\<close> is the one above.\<close>

definition applyCellularAutomataD ::
  "doubleOps \<Rightarrow> nat \<Rightarrow> nat \<Rightarrow> EffectParams \<Rightarrow> byte list \<Rightarrow> byte list" where
  "applyCellularAutomataD fl w h p d = recolorD fl d p (evolve w h p (initGridD fl w h d))"

section \<open>The dispatcher\<close>

text \<open>For the dispatcher the cellular effect is taken at the exact reals, as the other
  effects of the first sections are.\<close>

definition applyCellularAutomata :: "nat \<Rightarrow> nat \<Rightarrow> EffectParams \<Rightarrow> byte list \<Rightarrow> byte list" where
  "applyCellularAutomata w h p d = applyCellularAutomataD exactOps w h p d"

text \<open>\<^verbatim>\<open>process\<close>, lines 47 to 74: the bytes of the canvas go through the selected effect
  and are put back. The parameter record is passed on as it is.\<close>

definition process :: "nat \<Rightarrow> nat \<Rightarrow> EffectParams \<Rightarrow> byte list \<Rightarrow> byte list" where
  "process w h p workingData =
     (case effectType p of
        chromatic \<Rightarrow> applyChromaticAberration w h p workingData
      | fractal \<Rightarrow> applyFractalDisplacement w h p workingData
      | cellular \<Rightarrow> applyCellularAutomata w h p workingData
      | wave \<Rightarrow> applyWaveDistortion w h p workingData
      | noise \<Rightarrow> applyPerlinNoiseGlitch w h p workingData)"

text \<open>A buffer as \<^verbatim>\<open>getImageData(0, 0, width, height)\<close> returns it.\<close>

definition wellFormed :: "nat \<Rightarrow> nat \<Rightarrow> byte list \<Rightarrow> bool" where
  "wellFormed w h d \<longleftrightarrow> 1 \<le> w \<and> 1 \<le> h \<and> length d = w * h * 4"

text \<open>The clamping that section 4.2 of the specification describes for the dispatcher,
  written from the specification's words; \<open>process\<close> above has no counterpart of it.\<close>

definition specClampParams :: "EffectParams \<Rightarrow> EffectParams" where
  "specClampParams p =
     p\<lparr>intensity := max 0 (min 100 (intensity p)),
        scale := max 10 (min 200 (scale p)),
        iterations := max 1 (min 64 (iterations p))\<rparr>"

section \<open>Auxiliary facts\<close>

subsection \<open>Loops as folds: what a pass over the pixels leaves and what it stores\<close>

lemma fold_nested_product:
  "fold (\<lambda>y. fold (\<lambda>x. F y x) xs) ys = fold (\<lambda>(y, x). F y x) (List.product ys xs)"
proof (induction ys)
  case Nil
  show ?case by simp
next
  case (Cons y ys)
  have "fold (\<lambda>(y, x). F y x) (map (Pair y) xs) = fold (F y) xs"
    by (simp add: fold_map comp_def)
  then show ?case using Cons by simp
qed

lemma fold_length_inv:
  assumes "\<And>k a. k \<in> set ks \<Longrightarrow> length (f k a) = length a"
  shows "length (fold f ks a) = length a"
  using assms
proof (induction ks arbitrary: a)
  case Nil
  show ?case by simp
next
  case (Cons c ks)
  have "length (fold f ks (f c a)) = length (f c a)"
    by (rule Cons.IH) (simp add: Cons.prems)
  then show ?case by (simp add: Cons.prems)
qed

lemma fold_frame:
  assumes "\<And>k a. k \<in> set ks \<Longrightarrow> j \<notin> S k \<Longrightarrow> f k a ! j = a ! j"
      and "\<forall>k\<in>set ks. j \<notin> S k"
  shows "fold f ks a ! j = a ! j"
  using assms
proof (induction ks arbitrary: a)
  case Nil
  show ?case by simp
next
  case (Cons c ks)
  have "fold f ks (f c a) ! j = f c a ! j"
    by (rule Cons.IH) (simp_all add: Cons.prems)
  moreover have "f c a ! j = a ! j"
    using Cons.prems(2) by (intro Cons.prems(1)) simp_all
  ultimately show ?case by simp
qed

lemma fold_owner_aux:
  assumes frame: "\<And>k a j. k \<in> K \<Longrightarrow> j \<notin> S k \<Longrightarrow> f k a ! j = a ! j"
      and len: "\<And>k a. k \<in> K \<Longrightarrow> length (f k a) = length a"
      and loc: "\<And>k a b j. k \<in> K \<Longrightarrow> length a = length b \<Longrightarrow>
                  (\<forall>j\<in>S k. a ! j = b ! j) \<Longrightarrow> j \<in> S k \<Longrightarrow> f k a ! j = f k b ! j"
      and disj: "\<And>k k'. k \<in> K \<Longrightarrow> k' \<in> K \<Longrightarrow> k \<noteq> k' \<Longrightarrow> S k \<inter> S k' = {}"
      and j: "j \<in> S k"
  shows "set ks \<subseteq> K \<Longrightarrow> distinct ks \<Longrightarrow> k \<in> set ks \<Longrightarrow> fold f ks a ! j = f k a ! j"
proof (induction ks arbitrary: a)
  case Nil
  then show ?case by simp
next
  case (Cons c ks)
  have cK: "c \<in> K" and sub: "set ks \<subseteq> K" using Cons.prems(1) by auto
  have kK: "k \<in> K" using Cons.prems(1,3) by auto
  show ?case
  proof (cases "k = c")
    case True
    have "\<forall>k'\<in>set ks. j \<notin> S k'"
    proof
      fix k' assume k': "k' \<in> set ks"
      then have "k' \<noteq> k" using Cons.prems(2) True by auto
      moreover have "k' \<in> K" using k' sub by blast
      ultimately have "S k' \<inter> S k = {}" using disj kK by blast
      then show "j \<notin> S k'" using j by blast
    qed
    moreover have "\<And>k' b. k' \<in> set ks \<Longrightarrow> j \<notin> S k' \<Longrightarrow> f k' b ! j = b ! j"
      using frame sub by blast
    ultimately have "fold f ks (f c a) ! j = f c a ! j"
      by (rule fold_frame [where S = S, rotated])
    then show ?thesis using True by simp
  next
    case False
    then have kin: "k \<in> set ks" using Cons.prems(3) by simp
    have ih: "fold f ks (f c a) ! j = f k (f c a) ! j"
      using Cons.IH [OF sub _ kin] Cons.prems(2) by simp
    have "S k \<inter> S c = {}" using disj [OF kK cK False] .
    then have "\<forall>j'\<in>S k. f c a ! j' = a ! j'"
      using frame [OF cK] by blast
    moreover have "length (f c a) = length a" using len [OF cK] .
    ultimately have "f k (f c a) ! j = f k a ! j"
      using loc [OF kK _ _ j] by blast
    then show ?thesis using ih by simp
  qed
qed

lemma loop2_length:
  assumes "\<And>y x a. y \<in> set ys \<Longrightarrow> x \<in> set xs \<Longrightarrow> length (F y x a) = length a"
  shows "length (fold (\<lambda>y. fold (\<lambda>x. F y x) xs) ys a) = length a"
  unfolding fold_nested_product
  by (rule fold_length_inv) (use assms in auto)

lemma loop2_frame:
  assumes "\<And>y x a. y \<in> set ys \<Longrightarrow> x \<in> set xs \<Longrightarrow> j \<notin> S y x \<Longrightarrow> F y x a ! j = a ! j"
      and "\<forall>y\<in>set ys. \<forall>x\<in>set xs. j \<notin> S y x"
  shows "fold (\<lambda>y. fold (\<lambda>x. F y x) xs) ys a ! j = a ! j"
  unfolding fold_nested_product
  by (rule fold_frame [where S = "\<lambda>(y, x). S y x"]) (use assms in auto)

lemma loop2_owner:
  assumes frame: "\<And>y x a j. y \<in> set ys \<Longrightarrow> x \<in> set xs \<Longrightarrow> j \<notin> S y x \<Longrightarrow> F y x a ! j = a ! j"
      and len: "\<And>y x a. y \<in> set ys \<Longrightarrow> x \<in> set xs \<Longrightarrow> length (F y x a) = length a"
      and loc: "\<And>y x a b j. y \<in> set ys \<Longrightarrow> x \<in> set xs \<Longrightarrow> length a = length b \<Longrightarrow>
                  (\<forall>j\<in>S y x. a ! j = b ! j) \<Longrightarrow> j \<in> S y x \<Longrightarrow> F y x a ! j = F y x b ! j"
      and disj: "\<And>y x y' x'. y \<in> set ys \<Longrightarrow> x \<in> set xs \<Longrightarrow> y' \<in> set ys \<Longrightarrow> x' \<in> set xs \<Longrightarrow>
                  (y, x) \<noteq> (y', x') \<Longrightarrow> S y x \<inter> S y' x' = {}"
      and dist: "distinct ys" "distinct xs"
      and mem: "y \<in> set ys" "x \<in> set xs" and j: "j \<in> S y x"
  shows "fold (\<lambda>y. fold (\<lambda>x. F y x) xs) ys a ! j = F y x a ! j"
proof -
  let ?K = "set ys \<times> set xs"
  let ?S = "\<lambda>(y, x). S y x"
  let ?f = "\<lambda>(y, x). F y x"
  have "fold ?f (List.product ys xs) a ! j = ?f (y, x) a ! j"
  proof (rule fold_owner_aux [where K = ?K and S = ?S])
    show "\<And>k a j. k \<in> ?K \<Longrightarrow> j \<notin> ?S k \<Longrightarrow> ?f k a ! j = a ! j"
      using frame by auto
    show "\<And>k a. k \<in> ?K \<Longrightarrow> length (?f k a) = length a"
      using len by auto
    show "\<And>k a b j. k \<in> ?K \<Longrightarrow> length a = length b \<Longrightarrow>
            \<forall>j\<in>?S k. a ! j = b ! j \<Longrightarrow> j \<in> ?S k \<Longrightarrow> ?f k a ! j = ?f k b ! j"
    proof -
      fix k :: "'a \<times> 'b" and a b :: "'c list" and j
      assume h: "k \<in> ?K" "length a = length b" "\<forall>j\<in>?S k. a ! j = b ! j" "j \<in> ?S k"
      obtain y' x' where k: "k = (y', x')" by (cases k)
      show "?f k a ! j = ?f k b ! j"
        using loc [of y' x' a b j] h unfolding k by simp
    qed
    show "\<And>k k'. k \<in> ?K \<Longrightarrow> k' \<in> ?K \<Longrightarrow> k \<noteq> k' \<Longrightarrow> ?S k \<inter> ?S k' = {}"
    proof -
      fix k k' :: "'a \<times> 'b"
      assume h: "k \<in> ?K" "k' \<in> ?K" "k \<noteq> k'"
      obtain y1 x1 where k: "k = (y1, x1)" by (cases k)
      obtain y2 x2 where k': "k' = (y2, x2)" by (cases k')
      have "S y1 x1 \<inter> S y2 x2 = {}"
        using disj [of y1 x1 y2 x2] h unfolding k k' by simp
      then show "?S k \<inter> ?S k' = {}" unfolding k k' by simp
    qed
    show "j \<in> ?S (y, x)" using j by simp
    show "set (List.product ys xs) \<subseteq> ?K" by simp
    show "distinct (List.product ys xs)" using dist by (simp add: distinct_product)
    show "(y, x) \<in> set (List.product ys xs)" using mem by simp
  qed
  then show ?thesis unfolding fold_nested_product by simp
qed

lemma pixel_index_inj:
  assumes "x < w" "x' < w" "y * w + x = y' * w + x'"
  shows "y = y' \<and> x = (x'::nat)"
proof -
  have "(y * w + x) div w = y" "(y' * w + x') div w = y'" using assms(1,2) by simp_all
  then have "y = y'" using assms(3) by simp
  then show ?thesis using assms(3) by simp
qed

subsection \<open>Stores into the byte array and the cell of a pixel\<close>

lemma length_wr: "length (wr a i v) = length a"
  by (simp add: wr_def)

lemma nth_wr: "wr a i v ! j = (if j = i \<and> i < length a then toUint8Clamp v else a ! j)"
  by (cases "i < length a") (simp_all add: wr_def nth_list_update list_update_beyond)

lemma pixel_bound:
  assumes "x < w" "y < h"
  shows "(y * w + x) * 4 + 3 < w * h * (4::nat)"
proof -
  have "y * w + x < (y + 1) * w" using assms(1) by simp
  also have "\<dots> \<le> h * w" using assms(2) by (intro mult_le_mono1) simp
  finally have "y * w + x < w * h" by (simp add: mult.commute)
  then show ?thesis by simp
qed

lemma cells_disjoint:
  assumes "x < w" "x' < w" "(y, x) \<noteq> (y', x')"
  shows "{(y * w + x) * 4 ..< (y * w + x) * 4 + 4} \<inter> {(y' * w + x') * 4 ..< (y' * w + x') * 4 + (4::nat)} = {}"
proof -
  define q q' where "q = y * w + x" and "q' = y' * w + x'"
  have "q \<noteq> q'"
    using pixel_index_inj [OF assms(1,2)] assms(3) unfolding q_def q'_def by auto
  then have "q * 4 + 4 \<le> q' * 4 \<or> q' * 4 + 4 \<le> q * 4" by linarith
  then have "{q * 4 ..< q * 4 + 4} \<inter> {q' * 4 ..< q' * 4 + 4} = {}" by auto
  then show ?thesis unfolding q_def q'_def .
qed

lemma pixel_loop_owner:
  assumes frame: "\<And>y x a j. j \<notin> {(y * w + x) * 4 ..< (y * w + x) * 4 + 4} \<Longrightarrow> F y x a ! j = a ! j"
      and len: "\<And>y x a. length (F y x a) = length a"
      and loc: "\<And>y x a b j. length a = length b \<Longrightarrow>
                  (\<forall>j\<in>{(y * w + x) * 4 ..< (y * w + x) * 4 + 4}. a ! j = b ! j) \<Longrightarrow>
                  j \<in> {(y * w + x) * 4 ..< (y * w + x) * 4 + 4} \<Longrightarrow> F y x a ! j = F y x b ! j"
      and xy: "x < w" "y < h" and c: "c < 4"
  shows "fold (\<lambda>y. fold (\<lambda>x. F y x) [0..<w]) [0..<h] a ! ((y * w + x) * 4 + c)
           = F y x a ! ((y * w + x) * 4 + c)"
proof (rule loop2_owner [where S = "\<lambda>y x. {(y * w + x) * 4 ..< (y * w + x) * 4 + 4}"])
  show "\<And>y x a j. y \<in> set [0..<h] \<Longrightarrow> x \<in> set [0..<w] \<Longrightarrow>
          j \<notin> {(y * w + x) * 4 ..< (y * w + x) * 4 + 4} \<Longrightarrow> F y x a ! j = a ! j"
    using frame by blast
  show "\<And>y x a. y \<in> set [0..<h] \<Longrightarrow> x \<in> set [0..<w] \<Longrightarrow> length (F y x a) = length a"
    using len by blast
  show "\<And>y x a b j. y \<in> set [0..<h] \<Longrightarrow> x \<in> set [0..<w] \<Longrightarrow> length a = length b \<Longrightarrow>
          \<forall>j\<in>{(y * w + x) * 4 ..< (y * w + x) * 4 + 4}. a ! j = b ! j \<Longrightarrow>
          j \<in> {(y * w + x) * 4 ..< (y * w + x) * 4 + 4} \<Longrightarrow> F y x a ! j = F y x b ! j"
    using loc by blast
  show "\<And>y x y' x'. y \<in> set [0..<h] \<Longrightarrow> x \<in> set [0..<w] \<Longrightarrow> y' \<in> set [0..<h] \<Longrightarrow>
          x' \<in> set [0..<w] \<Longrightarrow> (y, x) \<noteq> (y', x') \<Longrightarrow>
          {(y * w + x) * 4 ..< (y * w + x) * 4 + 4} \<inter> {(y' * w + x') * 4 ..< (y' * w + x') * 4 + 4} = {}"
    using cells_disjoint by simp
  show "distinct [0..<h]" "distinct [0..<w]" by simp_all
  show "y \<in> set [0..<h]" "x \<in> set [0..<w]" using xy by simp_all
  show "(y * w + x) * 4 + c \<in> {(y * w + x) * 4 ..< (y * w + x) * 4 + 4}" using c by simp
qed

subsection \<open>The copying effects, pixel by pixel\<close>

lemma length_copyPixel: "length (copyPixel d s i a) = length a"
  by (simp add: copyPixel_def length_wr)

lemma copyPixel_frame:
  "j \<notin> {i ..< i + 4} \<Longrightarrow> copyPixel d s i a ! j = a ! j"
  by (auto simp add: copyPixel_def nth_wr)

lemma copyPixel_nth:
  assumes "i + 3 < length a" "c < 4"
  shows "copyPixel d s i a ! (i + c) = toUint8Clamp (rdAt d s (int c))"
proof -
  consider "c = 0" | "c = 1" | "c = 2" | "c = 3" using assms(2) by linarith
  then show ?thesis
    using assms(1) by cases (simp_all add: copyPixel_def nth_wr length_wr)
qed

lemma copyPixel_loc:
  assumes "length a = length b" "\<forall>j\<in>{i ..< i + 4}. a ! j = b ! j" "j \<in> {i ..< i + 4}"
  shows "copyPixel d s i a ! j = copyPixel d s i b ! j"
  using assms by (simp add: copyPixel_def nth_wr length_wr)

lemma copy_loop_nth:
  assumes "x < w" "y < h" "length d = w * h * 4" "c < 4"
  shows "fold (\<lambda>y. fold (\<lambda>x. copyPixel d (src y x) ((y * w + x) * 4)) [0..<w]) [0..<h] d
           ! ((y * w + x) * 4 + c)
         = toUint8Clamp (rdAt d (src y x) (int c))"
proof -
  have "fold (\<lambda>y. fold (\<lambda>x. copyPixel d (src y x) ((y * w + x) * 4)) [0..<w]) [0..<h] d
           ! ((y * w + x) * 4 + c)
        = copyPixel d (src y x) ((y * w + x) * 4) d ! ((y * w + x) * 4 + c)"
  proof (rule pixel_loop_owner)
    show "\<And>y x a j. j \<notin> {(y * w + x) * 4..<(y * w + x) * 4 + 4} \<Longrightarrow>
            copyPixel d (src y x) ((y * w + x) * 4) a ! j = a ! j"
      by (rule copyPixel_frame)
    show "\<And>y x a. length (copyPixel d (src y x) ((y * w + x) * 4) a) = length a"
      by (rule length_copyPixel)
    show "\<And>y x a b j. length a = length b \<Longrightarrow>
            \<forall>j\<in>{(y * w + x) * 4..<(y * w + x) * 4 + 4}. a ! j = b ! j \<Longrightarrow>
            j \<in> {(y * w + x) * 4..<(y * w + x) * 4 + 4} \<Longrightarrow>
            copyPixel d (src y x) ((y * w + x) * 4) a ! j = copyPixel d (src y x) ((y * w + x) * 4) b ! j"
      by (rule copyPixel_loc)
    show "x < w" "y < h" "c < 4" by (rule assms)+
  qed
  also have "\<dots> = toUint8Clamp (rdAt d (src y x) (int c))"
    using pixel_bound [OF assms(1,2)] assms(3,4) by (intro copyPixel_nth) simp_all
  finally show ?thesis .
qed

lemma fractal_nth:
  assumes "x < w" "y < h" "length d = w * h * 4" "c < 4"
  shows "applyFractalDisplacement w h p d ! ((y * w + x) * 4 + c)
           = toUint8Clamp (rdAt d (fractalSrcIdx w h p x y) (int c))"
  unfolding applyFractalDisplacement_def fractalPixel_def
  using assms by (rule copy_loop_nth)

lemma wave_nth:
  assumes "x < w" "y < h" "length d = w * h * 4" "c < 4"
  shows "applyWaveDistortion w h p d ! ((y * w + x) * 4 + c)
           = toUint8Clamp (rd d (waveSrcIdx w h p x y + int c))"
proof -
  have "applyWaveDistortion w h p d ! ((y * w + x) * 4 + c)
          = toUint8Clamp (rdAt d (Some (waveSrcIdx w h p x y)) (int c))"
    unfolding applyWaveDistortion_def wavePixel_def
    using assms by (rule copy_loop_nth)
  then show ?thesis by (simp add: rdAt_def)
qed

subsection \<open>A byte read and stored again; remainders of non-negative numbers\<close>

lemma roundHalfEven_of_int: "roundHalfEven (real_of_int k) = k"
  by (simp add: roundHalfEven_def)

lemma toUint8Clamp_inside:
  "0 < r \<Longrightarrow> r < 255 \<Longrightarrow> toUint8Clamp (Some r) = word_of_int (roundHalfEven r)"
  by (simp add: toUint8Clamp_def)

lemma toUint8Clamp_byte: "toUint8Clamp (Some (real (unat (b::byte)))) = b"
proof -
  have lt: "unat b < 256" using unsigned_less [of b, where ?'a = nat] by simp
  have r: "roundHalfEven (real (unat b)) = int (unat b)"
    using roundHalfEven_of_int [of "int (unat b)"] by simp
  show ?thesis
  proof (cases "unat b = 0")
    case True
    then have "b = 0" by (simp add: unat_eq_0)
    then show ?thesis by (simp add: toUint8Clamp_def)
  next
    case nz: False
    show ?thesis
    proof (cases "unat b = 255")
      case True
      then have "b = 255" by (simp add: word_eq_iff_unsigned [where ?'a = nat])
      then show ?thesis by (simp add: toUint8Clamp_def)
    next
      case False
      then have "real (unat b) < 255" using lt by linarith
      moreover have "0 < real (unat b)" using nz by linarith
      ultimately have "toUint8Clamp (Some (real (unat b))) = word_of_int (roundHalfEven (real (unat b)))"
        by (rule toUint8Clamp_inside [rotated])
      also have "\<dots> = b" unfolding r by simp
      finally show ?thesis .
    qed
  qed
qed

lemma toUint8Clamp_unsigned: "toUint8Clamp (Some (unsigned (b::byte))) = b"
  using toUint8Clamp_byte [of b] by simp

lemma rd_in_range:
  "j < length d \<Longrightarrow> rd d (int j) = Some (real (unat (d ! j)))"
  by (simp add: rd_def)

lemma store_read_back: "j < length d \<Longrightarrow> toUint8Clamp (rd d (int j)) = d ! j"
  by (simp add: rd_in_range toUint8Clamp_unsigned)

lemma jsrem_nonneg:
  assumes "0 \<le> a" "0 < b"
  shows "jsrem a b = a mod b"
proof (cases "a = 0")
  case True
  then show ?thesis by (simp add: jsrem_def)
next
  case False
  then have "sgn a = 1" using assms(1) by simp
  then show ?thesis using assms by (simp add: jsrem_def)
qed

lemma jsrem_small: "0 \<le> a \<Longrightarrow> a < b \<Longrightarrow> jsrem a b = a"
  by (simp add: jsrem_nonneg)

lemma index_decompose:
  assumes "j < w * h * (4::nat)"
  obtains x y c where "x < w" "y < h" "c < 4" "j = (y * w + x) * 4 + c"
proof -
  have w: "0 < w" using assms by (cases w) simp_all
  let ?q = "j div 4"
  have q: "?q < w * h" using assms by (simp add: less_mult_imp_div_less)
  have 1: "?q mod w < w" using w by simp
  have 2: "?q div w < h" using q by (simp add: less_mult_imp_div_less mult.commute)
  have 3: "j mod 4 < 4" by simp
  have 4: "j = ((?q div w) * w + ?q mod w) * 4 + j mod 4" by simp
  show ?thesis using that [OF 1 2 3 4] .
qed

lemma diagSrcIdx_zero:
  assumes "x < w" "y < h"
  shows "diagSrcIdx w h x y 0 = int ((y * w + x) * 4)"
  using assms by (simp add: diagSrcIdx_def jsrem_small)

lemma diagSrcIdx_bounds:
  assumes "0 < w" "0 < h" "0 \<le> k"
  shows "0 \<le> diagSrcIdx w h x y k \<and> diagSrcIdx w h x y k + 3 < int (w * h * 4)"
proof -
  let ?sx = "(int x + k) mod int w" and ?sy = "(int y + k) mod int h"
  have sx: "0 \<le> ?sx" "?sx < int w" using assms(1) by simp_all
  have sy0: "?sy < int h" using assms(2) by simp
  have sy: "0 \<le> ?sy" "?sy + 1 \<le> int h"
  proof -
    show "0 \<le> ?sy" using assms(2) by simp
    show "?sy + 1 \<le> int h" using sy0 by linarith
  qed
  have "?sy * int w + ?sx < (?sy + 1) * int w" using sx by (simp add: algebra_simps)
  also have "\<dots> \<le> int h * int w" using sy(2) by (intro mult_right_mono) simp_all
  finally have lt: "?sy * int w + ?sx < int w * int h" by (simp add: mult.commute)
  have ge: "0 \<le> ?sy * int w + ?sx" using sx sy by simp
  have eq: "diagSrcIdx w h x y k = (?sy * int w + ?sx) * 4"
    using assms by (simp add: diagSrcIdx_def jsrem_nonneg)
  show ?thesis using lt ge unfolding eq by simp
qed

lemma iterationCount_pos: "inRange p \<Longrightarrow> 1 \<le> iterationCount p"
  by (simp add: inRange_def iterationCount_def le_floor_iff)

lemma length_fractal: "length (applyFractalDisplacement w h p d) = length d"
  unfolding applyFractalDisplacement_def
  by (rule loop2_length) (simp add: fractalPixel_def length_copyPixel)

lemma length_wave: "length (applyWaveDistortion w h p d) = length d"
  unfolding applyWaveDistortion_def
  by (rule loop2_length) (simp add: wavePixel_def length_copyPixel)

lemma fractal_identity:
  assumes wf: "wellFormed w h d" and n: "1 \<le> iterationCount p" and i0: "intensity p = 0"
  shows "applyFractalDisplacement w h p d = d"
proof (rule nth_equalityI)
  show "length (applyFractalDisplacement w h p d) = length d" by (rule length_fractal)
next
  fix j assume "j < length (applyFractalDisplacement w h p d)"
  then have j: "j < w * h * 4" using wf by (simp add: length_fractal wellFormed_def)
  obtain x y c where xy: "x < w" "y < h" "c < 4" and jeq: "j = (y * w + x) * 4 + c"
    using index_decompose [OF j] by blast
  have len: "length d = w * h * 4" using wf by (simp add: wellFormed_def)
  have src: "fractalSrcIdx w h p x y = Some (int ((y * w + x) * 4))"
    using n i0 xy by (simp add: fractalSrcIdx_def fractalDisplacement_def Let_def diagSrcIdx_zero)
  have "applyFractalDisplacement w h p d ! j = toUint8Clamp (rd d (int j))"
    unfolding jeq fractal_nth [OF xy(1,2) len xy(3)] src by (simp add: rdAt_def)
  then show "applyFractalDisplacement w h p d ! j = d ! j"
    using j len by (simp add: store_read_back)
qed

subsection \<open>Wave distortion without amplitude\<close>

lemma fold_fixpoint:
  assumes "\<And>k. k \<in> set ks \<Longrightarrow> f k s = s"
  shows "fold f ks s = s"
  using assms by (induction ks) simp_all

lemma fold_invariant:
  assumes "\<And>k s. P s \<Longrightarrow> P (f k s)" and "P s"
  shows "P (fold f ks s)"
  using assms(2) by (induction ks arbitrary: s) (simp_all add: assms(1))

lemma waveDisplace_zero:
  assumes "intensity p = 0"
  shows "waveDisplace w h p x y = (0, 0)"
  unfolding waveDisplace_def
  by (rule fold_fixpoint) (simp add: assms)

lemma fmod_wrap_once:
  assumes "x < w"
  shows "\<lfloor>fmod (real x + 0 + real w) (real w)\<rfloor> = int x"
proof -
  have w: "0 < real w" using assms by simp
  have q: "(real x + real w) / real w = real x / real w + 1"
    using w by (simp add: field_simps)
  have "0 \<le> real x / real w" "real x / real w < 1" using assms w by simp_all
  then have "\<lfloor>real x / real w + 1\<rfloor> = 1" by linarith
  then have "trunc ((real x + real w) / real w) = 1"
    unfolding q trunc_def using w by simp
  then have "fmod (real x + 0 + real w) (real w) = real x"
    by (simp add: fmod_def)
  then show ?thesis by simp
qed

lemma waveSrcIdx_zero:
  assumes "intensity p = 0" "x < w" "y < h"
  shows "waveSrcIdx w h p x y = int ((y * w + x) * 4)"
  using fmod_wrap_once [OF assms(2)] fmod_wrap_once [OF assms(3)]
  by (simp add: waveSrcIdx_def waveSrcX_def waveSrcY_def waveDisplace_zero [OF assms(1)])

lemma wave_identity:
  assumes wf: "wellFormed w h d" and i0: "intensity p = 0"
  shows "applyWaveDistortion w h p d = d"
proof (rule nth_equalityI)
  show "length (applyWaveDistortion w h p d) = length d" by (rule length_wave)
next
  fix j assume "j < length (applyWaveDistortion w h p d)"
  then have j: "j < w * h * 4" using wf by (simp add: length_wave wellFormed_def)
  obtain x y c where xy: "x < w" "y < h" "c < 4" and jeq: "j = (y * w + x) * 4 + c"
    using index_decompose [OF j] by blast
  have len: "length d = w * h * 4" using wf by (simp add: wellFormed_def)
  have "applyWaveDistortion w h p d ! j = toUint8Clamp (rd d (int j))"
    unfolding jeq wave_nth [OF xy(1,2) len xy(3)] waveSrcIdx_zero [OF i0 xy(1,2)] by simp
  then show "applyWaveDistortion w h p d ! j = d ! j"
    using j len by (simp add: store_read_back)
qed

subsection \<open>The range of the layered noise\<close>

lemma abs_sin_cos_le: "\<bar>sin a * cos b\<bar> \<le> (1::real)"
proof -
  have "\<bar>sin a * cos b\<bar> = \<bar>sin a\<bar> * \<bar>cos b\<bar>" by (rule abs_mult)
  also have "\<dots> \<le> 1 * 1" by (intro mult_mono) simp_all
  finally show ?thesis by simp
qed

lemma octave_step_bound:
  assumes "\<bar>nv\<bar> \<le> mx" "0 < amp"
  shows "\<bar>nv + amp * sin a * cos b\<bar> \<le> mx + (amp::real)"
proof -
  have "\<bar>amp * (sin a * cos b)\<bar> = amp * \<bar>sin a * cos b\<bar>"
    using assms(2) by (simp add: abs_mult)
  also have "\<dots> \<le> amp * 1" using assms(2) abs_sin_cos_le [of a b] by (intro mult_left_mono) simp_all
  finally have "\<bar>amp * sin a * cos b\<bar> \<le> amp" by (simp add: mult.assoc)
  then show ?thesis using assms(1) by linarith
qed

lemma noiseOctaves_bound:
  assumes "1 \<le> iterationCount p"
  shows "case noiseOctaves w h p x y of (nv, amp, fr, mx) \<Rightarrow> \<bar>nv\<bar> \<le> mx \<and> 0 < amp \<and> 0 < mx"
proof -
  let ?f = "\<lambda>i (noiseValue, amplitude, frequency, maxValue).
             let sampleX = (real x * frequency * (scale p * 0.01)) / real w;
                 sampleY = (real y * frequency * (scale p * 0.01)) / real h
             in (noiseValue + amplitude * sin (sampleX * pi) * cos (sampleY * pi),
                 amplitude * 0.5, frequency * 2, maxValue + amplitude)"
  let ?P = "\<lambda>s. case s of (nv, amp, fr, mx) \<Rightarrow> \<bar>nv\<bar> \<le> mx \<and> 0 < amp \<and> 0 < (mx::real)"
  have step: "\<And>k s. (case s of (nv, amp, fr, mx) \<Rightarrow> \<bar>nv\<bar> \<le> mx \<and> 0 < amp \<and> 0 \<le> (mx::real)) \<Longrightarrow> ?P (?f k s)"
  proof -
    fix k :: nat and s :: "real \<times> real \<times> real \<times> real"
    assume h: "case s of (nv, amp, fr, mx) \<Rightarrow> \<bar>nv\<bar> \<le> mx \<and> 0 < amp \<and> 0 \<le> mx"
    obtain nv amp fr mx where s: "s = (nv, amp, fr, mx)" by (cases s)
    show "?P (?f k s)"
      using h octave_step_bound [of nv mx amp] unfolding s by (simp add: Let_def)
  qed
  have step': "\<And>k s. ?P s \<Longrightarrow> ?P (?f k s)"
  proof -
    fix k :: nat and s :: "real \<times> real \<times> real \<times> real"
    assume h: "?P s"
    then have "case s of (nv, amp, fr, mx) \<Rightarrow> \<bar>nv\<bar> \<le> mx \<and> 0 < amp \<and> 0 \<le> mx" by auto
    then show "?P (?f k s)" by (rule step)
  qed
  obtain m where m: "nat (iterationCount p) = Suc m"
    using assms by (cases "nat (iterationCount p)") simp_all
  have "[0..<Suc m] = 0 # [1..<Suc m]" by (simp add: upt_conv_Cons)
  then have "noiseOctaves w h p x y = fold ?f [1..<Suc m] (?f 0 (0, 1, 1, 0))"
    unfolding noiseOctaves_def m by simp
  moreover have "?P (?f 0 (0, 1, 1, 0))" by (rule step) simp
  then have "?P (fold ?f [1..<Suc m] (?f 0 (0, 1, 1, 0)))"
    using step' by (rule fold_invariant [where P = ?P, rotated])
  ultimately show ?thesis by simp
qed

lemma noiseValue_range:
  assumes "1 \<le> iterationCount p"
  obtains v where "noiseValue w h p x y = Some v" "0 \<le> v" "v \<le> 1"
proof -
  obtain nv amp fr mx where s: "noiseOctaves w h p x y = (nv, amp, fr, mx)"
    by (cases "noiseOctaves w h p x y")
  have b: "\<bar>nv\<bar> \<le> mx" "0 < mx" using noiseOctaves_bound [OF assms, of w h x y] unfolding s by simp_all
  have 1: "noiseValue w h p x y = Some ((nv / mx + 1) / 2)"
    using b by (simp add: noiseValue_def s)
  have "- 1 \<le> nv / mx" "nv / mx \<le> 1" using b by (simp_all add: field_simps)
  then have 2: "0 \<le> (nv / mx + 1) / 2" "(nv / mx + 1) / 2 \<le> 1" by simp_all
  show ?thesis using that [OF 1 2] .
qed

subsection \<open>Layered noise, pixel by pixel\<close>

lemma length_noisePixel: "length (noisePixel d w h p y x a) = length a"
  by (simp add: noisePixel_def Let_def length_wr)

lemma noisePixel_frame:
  "j \<notin> {(y * w + x) * 4 ..< (y * w + x) * 4 + 4} \<Longrightarrow> noisePixel d w h p y x a ! j = a ! j"
  by (auto simp add: noisePixel_def Let_def nth_wr)

lemma noisePixel_loc:
  assumes "length a = length b"
    "\<forall>j\<in>{(y * w + x) * 4 ..< (y * w + x) * 4 + 4}. a ! j = b ! j"
    "j \<in> {(y * w + x) * 4 ..< (y * w + x) * 4 + 4}"
  shows "noisePixel d w h p y x a ! j = noisePixel d w h p y x b ! j"
  using assms by (simp add: noisePixel_def Let_def nth_wr length_wr)

lemma noisePixel_nth:
  assumes "(y * w + x) * 4 + 3 < length a"
  shows "noisePixel d w h p y x a ! ((y * w + x) * 4) = toUint8Clamp (noiseRed d w h p x y)"
    and "noisePixel d w h p y x a ! ((y * w + x) * 4 + 1) = toUint8Clamp (noiseGreen d w h p x y)"
    and "noisePixel d w h p y x a ! ((y * w + x) * 4 + 2) = toUint8Clamp (noiseBlue d w h p x y)"
    and "noisePixel d w h p y x a ! ((y * w + x) * 4 + 3)
           = toUint8Clamp (rdAt d (noiseSrcIdx w h p x y) 3)"
  using assms by (simp_all add: noisePixel_def Let_def nth_wr length_wr)

lemma noise_loop:
  assumes "x < w" "y < h" "c < 4"
  shows "applyPerlinNoiseGlitch w h p d ! ((y * w + x) * 4 + c)
           = noisePixel d w h p y x d ! ((y * w + x) * 4 + c)"
  unfolding applyPerlinNoiseGlitch_def
proof (rule pixel_loop_owner)
  show "\<And>y x a j. j \<notin> {(y * w + x) * 4..<(y * w + x) * 4 + 4} \<Longrightarrow>
          noisePixel d w h p y x a ! j = a ! j"
    by (rule noisePixel_frame)
  show "\<And>y x a. length (noisePixel d w h p y x a) = length a"
    by (rule length_noisePixel)
  show "\<And>y x a b j. length a = length b \<Longrightarrow>
          \<forall>j\<in>{(y * w + x) * 4..<(y * w + x) * 4 + 4}. a ! j = b ! j \<Longrightarrow>
          j \<in> {(y * w + x) * 4..<(y * w + x) * 4 + 4} \<Longrightarrow>
          noisePixel d w h p y x a ! j = noisePixel d w h p y x b ! j"
    by (rule noisePixel_loc)
  show "x < w" "y < h" "c < 4" by (rule assms)+
qed

lemma noise_nth:
  assumes "x < w" "y < h" "length d = w * h * 4"
  shows "applyPerlinNoiseGlitch w h p d ! ((y * w + x) * 4) = toUint8Clamp (noiseRed d w h p x y)"
    and "applyPerlinNoiseGlitch w h p d ! ((y * w + x) * 4 + 1) = toUint8Clamp (noiseGreen d w h p x y)"
    and "applyPerlinNoiseGlitch w h p d ! ((y * w + x) * 4 + 2) = toUint8Clamp (noiseBlue d w h p x y)"
    and "applyPerlinNoiseGlitch w h p d ! ((y * w + x) * 4 + 3)
           = toUint8Clamp (rdAt d (noiseSrcIdx w h p x y) 3)"
proof -
  have b: "(y * w + x) * 4 + 3 < length d" using pixel_bound [OF assms(1,2)] assms(3) by simp
  show "applyPerlinNoiseGlitch w h p d ! ((y * w + x) * 4) = toUint8Clamp (noiseRed d w h p x y)"
    using noise_loop [OF assms(1,2), of 0 p d] noisePixel_nth(1) [OF b] by simp
  show "applyPerlinNoiseGlitch w h p d ! ((y * w + x) * 4 + 1) = toUint8Clamp (noiseGreen d w h p x y)"
    using noise_loop [OF assms(1,2), of 1 p d] noisePixel_nth(2) [OF b] by simp
  show "applyPerlinNoiseGlitch w h p d ! ((y * w + x) * 4 + 2) = toUint8Clamp (noiseBlue d w h p x y)"
    using noise_loop [OF assms(1,2), of 2 p d] noisePixel_nth(3) [OF b] by simp
  show "applyPerlinNoiseGlitch w h p d ! ((y * w + x) * 4 + 3)
           = toUint8Clamp (rdAt d (noiseSrcIdx w h p x y) 3)"
    using noise_loop [OF assms(1,2), of 3 p d] noisePixel_nth(4) [OF b] by simp
qed

lemma length_noise: "length (applyPerlinNoiseGlitch w h p d) = length d"
  unfolding applyPerlinNoiseGlitch_def
  by (rule loop2_length) (rule length_noisePixel)

lemma min255_byte: "min255 (Some (real (unat (b::byte)))) = Some (real (unat b))"
proof -
  have "unat b < 256" using unsigned_less [of b, where ?'a = nat] by simp
  then have "real (unat b) \<le> 255" by linarith
  then show ?thesis unfolding min255_def by (simp del: of_nat_unat)
qed

lemma noise_identity:
  assumes wf: "wellFormed w h d" and n: "1 \<le> iterationCount p" and i0: "intensity p = 0"
  shows "applyPerlinNoiseGlitch w h p d = d"
proof (rule nth_equalityI)
  show "length (applyPerlinNoiseGlitch w h p d) = length d" by (rule length_noise)
next
  fix j assume "j < length (applyPerlinNoiseGlitch w h p d)"
  then have j: "j < w * h * 4" using wf by (simp add: length_noise wellFormed_def)
  obtain x y c where xy: "x < w" "y < h" "c < 4" and jeq: "j = (y * w + x) * 4 + c"
    using index_decompose [OF j] by blast
  have len: "length d = w * h * 4" using wf by (simp add: wellFormed_def)
  have b: "(y * w + x) * 4 + 3 < length d" using pixel_bound [OF xy(1,2)] len by simp
  obtain v where v: "noiseValue w h p x y = Some v"
    using noiseValue_range [OF n] by blast
  have src: "noiseSrcIdx w h p x y = Some (int ((y * w + x) * 4))"
    using i0 xy by (simp add: noiseSrcIdx_def v diagSrcIdx_zero)
  have sh: "shiftAmount w h p x y = Some 0"
    using i0 by (simp add: shiftAmount_def colorShift_def v)
  have rdk: "\<And>k. k < 4 \<Longrightarrow> rdAt d (noiseSrcIdx w h p x y) (int k)
                = Some (real (unat (d ! ((y * w + x) * 4 + k))))"
  proof -
    fix k :: nat assume "k < 4"
    then have "(y * w + x) * 4 + k < length d" using b by simp
    then have "rd d (int ((y * w + x) * 4 + k)) = Some (real (unat (d ! ((y * w + x) * 4 + k))))"
      by (rule rd_in_range)
    then show "rdAt d (noiseSrcIdx w h p x y) (int k)
                = Some (real (unat (d ! ((y * w + x) * 4 + k))))"
      unfolding src rdAt_def by simp
  qed
  have r: "noiseRed d w h p x y = Some (real (unat (d ! ((y * w + x) * 4))))"
    using rdk [of 0] min255_byte unfolding noiseRed_def sh plus_def by simp
  have g: "noiseGreen d w h p x y = Some (real (unat (d ! ((y * w + x) * 4 + 1))))"
    using rdk [of 1] min255_byte unfolding noiseGreen_def sh plus_def by simp
  have bl: "noiseBlue d w h p x y = Some (real (unat (d ! ((y * w + x) * 4 + 2))))"
    using rdk [of 2] min255_byte unfolding noiseBlue_def sh plus_def by simp
  have al: "rdAt d (noiseSrcIdx w h p x y) 3 = Some (real (unat (d ! ((y * w + x) * 4 + 3))))"
    using rdk [of 3] by simp
  consider "c = 0" | "c = 1" | "c = 2" | "c = 3" using xy(3) by linarith
  then show "applyPerlinNoiseGlitch w h p d ! j = d ! j"
  proof cases
    case 1
    then show ?thesis unfolding jeq using noise_nth(1) [OF xy(1,2) len, of p] r
      by (simp add: toUint8Clamp_unsigned)
  next
    case 2
    then show ?thesis unfolding jeq using noise_nth(2) [OF xy(1,2) len, of p] g
      by (simp add: toUint8Clamp_unsigned)
  next
    case 3
    then show ?thesis unfolding jeq using noise_nth(3) [OF xy(1,2) len, of p] bl
      by (simp add: toUint8Clamp_unsigned)
  next
    case 4
    then show ?thesis unfolding jeq using noise_nth(4) [OF xy(1,2) len, of p] al
      by (simp add: toUint8Clamp_unsigned)
  qed
qed

subsection \<open>A bound on the sine of 5\<close>

lemma pi_ge_three: "3 \<le> pi"
proof -
  have "sin (pi / 6) \<le> pi / 6" by (rule sin_x_le_x) simp
  then show ?thesis by (simp add: sin_30)
qed

lemma sin_cubic_lower:
  fixes x :: real
  assumes "0 < x" "x \<le> 2"
  shows "x - x ^ 3 / 6 < sin x"
proof -
  obtain t where t: "0 < t" "t < x"
    and e: "sin x = (\<Sum>m<4. sin_coeff m * x ^ m) + (sin (t + 1 / 2 * real 4 * pi) / fact 4) * x ^ 4"
    using Maclaurin_sin_expansion3 [of 4 x] assms(1) by auto
  have s: "(\<Sum>m<4. sin_coeff m * x ^ m) = x - x ^ 3 / 6"
    by (simp add: sin_coeff_def lessThan_nat_numeral fact_numeral)
  have "sin (t + 1 / 2 * real 4 * pi) = sin t" by simp
  moreover have "0 < sin t" using t assms(2) by (intro sin_gt_zero_02) simp_all
  ultimately have "0 < (sin (t + 1 / 2 * real 4 * pi) / fact 4) * x ^ 4"
    using assms(1) by simp
  then show ?thesis using e s by linarith
qed

lemma sin_five_upper: "sin 5 < - (2 / 3 :: real)"
proof -
  define t where "t = 5 - pi"
  have t: "1 < t" "t \<le> 2" using pi_less_4 pi_ge_three by (simp_all add: t_def)
  have "0 \<le> (2 - t) * (t * t + 2 * t - 2)"
  proof (rule mult_nonneg_nonneg)
    show "0 \<le> 2 - t" using t by simp
    have "1 * 1 \<le> t * t" using t by (intro mult_mono) simp_all
    then show "0 \<le> t * t + 2 * t - 2" using t by simp
  qed
  then have "2 / 3 \<le> t - t ^ 3 / 6"
    by (simp add: power3_eq_cube algebra_simps)
  moreover have "t - t ^ 3 / 6 < sin t" using t by (intro sin_cubic_lower) simp_all
  ultimately have "2 / 3 < sin t" by linarith
  moreover have "sin 5 = - sin t"
  proof -
    have "sin (t + pi) = - sin t" by (rule sin_periodic_pi)
    then show ?thesis by (simp add: t_def)
  qed
  ultimately show ?thesis by simp
qed

subsection \<open>Wave distortion of a buffer one pixel wide\<close>

lemma wave_escape_displace:
  "waveDisplace 1 2 \<lparr>effectType = wave, intensity = 15, scale = 100, iterations = 1, seed = 0\<rparr> 0 1
     = (sin 5 * (3 / 2), 3 / 2)"
  by (simp add: waveDisplace_def iterationCount_def)

lemma wave_escape_srcX:
  "waveSrcX 1 2 \<lparr>effectType = wave, intensity = 15, scale = 100, iterations = 1, seed = 0\<rparr> 0 1 = - 1"
proof -
  let ?v = "sin 5 * (3 / 2) + (1::real)"
  have lo: "- 1 < ?v" using sin_ge_minus_one [of "5::real"] by linarith
  have hi: "?v < 0" using sin_five_upper by linarith
  have "\<lceil>?v\<rceil> = 0" using lo hi by linarith
  then have "trunc (?v / 1) = 0" using hi by (simp add: trunc_def)
  then have "fmod ?v 1 = ?v" by (simp add: fmod_def)
  moreover have "\<lfloor>?v\<rfloor> = - 1" using lo hi by linarith
  ultimately have "\<lfloor>fmod ?v 1\<rfloor> = - 1" by simp
  moreover have "real 0 + fst (sin 5 * (3 / 2), 3 / 2 :: real) + real 1 = ?v" by simp
  ultimately show ?thesis
    unfolding waveSrcX_def wave_escape_displace by (simp only: of_nat_1)
qed

lemma wave_escape_srcY:
  "waveSrcY 1 2 \<lparr>effectType = wave, intensity = 15, scale = 100, iterations = 1, seed = 0\<rparr> 0 1 = 0"
proof -
  have "trunc ((9 / 2) / 2) = 2" by (simp add: trunc_def)
  then have "fmod (9 / 2) 2 = 1 / 2" by (simp add: fmod_def)
  then have "\<lfloor>fmod (9 / 2) 2\<rfloor> = \<lfloor>1 / 2 :: real\<rfloor>" by (simp only:)
  then have "\<lfloor>fmod (9 / 2) 2\<rfloor> = 0" by simp
  moreover have "real 1 + snd (sin (5::real) * (3 / 2), 3 / 2 :: real) + real 2 = 9 / 2" by simp
  ultimately show ?thesis
    unfolding waveSrcY_def wave_escape_displace by (simp only: of_nat_numeral)
qed

subsection \<open>Layered noise on one black pixel\<close>

lemma noise_black_value:
  "noiseValue 1 1 \<lparr>effectType = noise, intensity = i, scale = 50, iterations = 1, seed = 42\<rparr> 0 0
     = Some (1 / 2)"
  by (simp add: noiseValue_def noiseOctaves_def iterationCount_def)

lemma noise_black_src:
  assumes "0 \<le> i"
  shows "noiseSrcIdx 1 1 \<lparr>effectType = noise, intensity = i, scale = 50, iterations = 1, seed = 42\<rparr> 0 0
           = Some 0"
  unfolding noiseSrcIdx_def noise_black_value
  by (simp add: diagSrcIdx_def jsrem_def)

lemma noise_black_shift:
  "shiftAmount 1 1 \<lparr>effectType = noise, intensity = i, scale = 50, iterations = 1, seed = 42\<rparr> 0 0
     = Some (127 * (i / 100))"
  unfolding shiftAmount_def colorShift_def noise_black_value by simp

lemma roundHalfEven_190: "roundHalfEven (381 / 2) = 190"
  by (simp add: roundHalfEven_def Let_def)

lemma noise_black_red:
  assumes "0 \<le> i"
  shows "applyPerlinNoiseGlitch 1 1
           \<lparr>effectType = noise, intensity = i, scale = 50, iterations = 1, seed = 42\<rparr>
           [0, 0, 0, 255] ! 0
         = toUint8Clamp (Some (min 255 (127 * (i / 100))))"
proof -
  let ?p = "\<lparr>effectType = noise, intensity = i, scale = 50, iterations = 1, seed = 42\<rparr>"
  let ?d = "[0, 0, 0, 255] :: byte list"
  have "applyPerlinNoiseGlitch 1 1 ?p ?d ! ((0 * 1 + 0) * 4) = toUint8Clamp (noiseRed ?d 1 1 ?p 0 0)"
    by (rule noise_nth(1)) simp_all
  moreover have "noiseRed ?d 1 1 ?p 0 0 = Some (min 255 (127 * (i / 100)))"
    unfolding noiseRed_def noise_black_src [OF assms] noise_black_shift
    by (simp add: rdAt_def rd_def plus_def min255_def)
  ultimately show ?thesis by simp
qed

subsection \<open>Clamping inside the ranges\<close>

lemma specClampParams_inRange: "inRange p \<Longrightarrow> specClampParams p = p"
  by (simp add: specClampParams_def inRange_def)

subsection \<open>Reads inside the buffer\<close>

lemma rdAt_in_range:
  assumes "0 \<le> s" "s + 3 < int (length d)" "k < 4"
  shows "rdAt d (Some s) (int k) = Some (real (unat (d ! (nat s + k))))"
proof -
  have "nat s + k < length d" using assms by linarith
  then have "rd d (int (nat s + k)) = Some (real (unat (d ! (nat s + k))))" by (rule rd_in_range)
  moreover have "int (nat s + k) = s + int k" using assms(1) by simp
  ultimately show ?thesis by (simp add: rdAt_def)
qed

subsection \<open>Chromatic displacement: the bytes an iteration leaves\<close>

lemma mod4_offset: "c < 4 \<Longrightarrow> (q * 4 + c) mod 4 = (c::nat)"
proof -
  assume "c < 4"
  have "(q * 4 + c) mod 4 = c mod 4" by (rule mod_mult_self3)
  then show ?thesis using \<open>c < 4\<close> by simp
qed

lemma length_chromaPixel: "length (chromaPixel d w h i dx dy y x a) = length a"
  by (simp add: chromaPixel_def Let_def length_wr)

lemma chromaPixel_frame:
  assumes "j mod 4 \<noteq> i mod 3"
  shows "chromaPixel d w h i dx dy y x a ! j = a ! j"
proof -
  have c: "i mod 3 = 0 \<or> i mod 3 = 1 \<or> i mod 3 = 2" by linarith
  have "j \<noteq> (y * w + x) * 4 + i mod 3"
  proof
    assume "j = (y * w + x) * 4 + i mod 3"
    moreover have "((y * w + x) * 4 + i mod 3) mod 4 = i mod 3"
      by (rule mod4_offset) linarith
    ultimately have "j mod 4 = i mod 3" by simp
    then show False using assms by simp
  qed
  then show ?thesis using c by (auto simp add: chromaPixel_def Let_def nth_wr)
qed

lemma length_chromaIteration: "length (chromaIteration d w h p i a) = length a"
  unfolding chromaIteration_def
  by (rule loop2_length) (rule length_chromaPixel)

lemma chromaIteration_frame:
  assumes "j mod 4 \<noteq> i mod 3"
  shows "chromaIteration d w h p i a ! j = a ! j"
  unfolding chromaIteration_def
proof (rule loop2_frame [where S = "\<lambda>y x. {k. k mod 4 = i mod 3}"])
  show "\<And>y x a. y \<in> set [0..<h] \<Longrightarrow> x \<in> set [0..<w] \<Longrightarrow> j \<notin> {k. k mod 4 = i mod 3} \<Longrightarrow>
          chromaPixel d w h i (fst (chromaDelta p i)) (snd (chromaDelta p i)) y x a ! j = a ! j"
    by (simp add: chromaPixel_frame)
  show "\<forall>y\<in>set [0..<h]. \<forall>x\<in>set [0..<w]. j \<notin> {k. k mod 4 = i mod 3}"
    using assms by simp
qed

lemma length_chromatic: "length (applyChromaticAberration w h p d) = length d"
  unfolding applyChromaticAberration_def
  by (rule fold_length_inv) (rule length_chromaIteration)

lemma chromatic_frame:
  assumes "\<forall>i. int i < iterationCount p \<longrightarrow> j mod 4 \<noteq> i mod 3"
  shows "applyChromaticAberration w h p d ! j = d ! j"
  unfolding applyChromaticAberration_def
proof (rule fold_frame [where S = "\<lambda>i. {k. k mod 4 = i mod 3}"])
  show "\<And>k a. k \<in> set [0..<nat (iterationCount p)] \<Longrightarrow> j \<notin> {ka. ka mod 4 = k mod 3} \<Longrightarrow>
          chromaIteration d w h p k a ! j = a ! j"
    by (simp add: chromaIteration_frame)
  show "\<forall>k\<in>set [0..<nat (iterationCount p)]. j \<notin> {ka. ka mod 4 = k mod 3}"
    using assms by auto
qed

lemma chromatic_alpha:
  assumes "j mod 4 = 3"
  shows "applyChromaticAberration w h p d ! j = d ! j"
proof (rule chromatic_frame, intro allI impI)
  fix i :: nat
  have "i mod 3 < 3" by simp
  then show "j mod 4 \<noteq> i mod 3" using assms by linarith
qed

subsection \<open>Cellular evolution\<close>

lemma list_update_same_len:
  "length a = length b \<Longrightarrow> a ! k = b ! k \<Longrightarrow> a[k := v] ! k = b[k := v] ! k"
  by (cases "k < length a") (simp_all add: list_update_beyond)

lemma length_generation: "length (generation w h g) = length g"
  unfolding generation_def
  by (rule loop2_length) simp

lemma generation_border:
  assumes "x < w" and "x = 0 \<or> y = 0 \<or> x = w - 1 \<or> y = h - 1"
  shows "generation w h g ! (y * w + x) = g ! (y * w + x)"
  unfolding generation_def
proof (rule loop2_frame [where S = "\<lambda>y x. {y * w + x}"])
  show "\<And>y' x' a. y' \<in> set [1..<h - 1] \<Longrightarrow> x' \<in> set [1..<w - 1] \<Longrightarrow>
          y * w + x \<notin> {y' * w + x'} \<Longrightarrow>
          a[y' * w + x' := lifeCell g w x' y'] ! (y * w + x) = a ! (y * w + x)"
    by simp
  show "\<forall>y'\<in>set [1..<h - 1]. \<forall>x'\<in>set [1..<w - 1]. y * w + x \<notin> {y' * w + x'}"
  proof (intro ballI)
    fix y' x' assume y': "y' \<in> set [1..<h - 1]" and x': "x' \<in> set [1..<w - 1]"
    have "x' < w - 1" using x' by simp
    then have xw: "x' < w" by linarith
    show "y * w + x \<notin> {y' * w + x'}"
    proof
      assume "y * w + x \<in> {y' * w + x'}"
      then have "y * w + x = y' * w + x'" by simp
      then have "y = y' \<and> x = x'" using pixel_index_inj [OF assms(1) xw] by simp
      then show False using assms(2) y' x' by auto
    qed
  qed
qed

lemma evolve_border:
  assumes "x < w" and "x = 0 \<or> y = 0 \<or> x = w - 1 \<or> y = h - 1"
  shows "(generation w h ^^ n) g ! (y * w + x) = g ! (y * w + x)"
proof (induction n)
  case 0
  show ?case by simp
next
  case (Suc n)
  have "(generation w h ^^ Suc n) g ! (y * w + x)
          = generation w h ((generation w h ^^ n) g) ! (y * w + x)" by simp
  also have "\<dots> = (generation w h ^^ n) g ! (y * w + x)"
    using assms by (rule generation_border)
  finally show ?case using Suc by simp
qed

lemma length_evolve: "length ((generation w h ^^ n) g) = length g"
  by (induction n) (simp_all add: length_generation)

lemma generation_interior:
  assumes len: "length g = w * h" and x: "1 \<le> x" "x < w - 1" and y: "1 \<le> y" "y < h - 1"
  shows "generation w h g ! (y * w + x) = lifeCell g w x y"
proof -
  have xw: "x < w" and yh: "y < h" using x y by simp_all
  have "y * w + x < (y + 1) * w" using xw by simp
  also have "\<dots> \<le> h * w" using yh by (intro mult_le_mono1) simp
  finally have inside: "y * w + x < length g" using len by (simp add: mult.commute)
  have "generation w h g ! (y * w + x) = g[y * w + x := lifeCell g w x y] ! (y * w + x)"
    unfolding generation_def
  proof (rule loop2_owner [where S = "\<lambda>y x. {y * w + x}"])
    show "\<And>y x a j. y \<in> set [1..<h - 1] \<Longrightarrow> x \<in> set [1..<w - 1] \<Longrightarrow> j \<notin> {y * w + x} \<Longrightarrow>
            a[y * w + x := lifeCell g w x y] ! j = a ! j"
      by simp
    show "\<And>y x a. y \<in> set [1..<h - 1] \<Longrightarrow> x \<in> set [1..<w - 1] \<Longrightarrow>
            length (a[y * w + x := lifeCell g w x y]) = length a"
      by simp
    show "\<And>y x a b j. y \<in> set [1..<h - 1] \<Longrightarrow> x \<in> set [1..<w - 1] \<Longrightarrow> length a = length b \<Longrightarrow>
            \<forall>j\<in>{y * w + x}. a ! j = b ! j \<Longrightarrow> j \<in> {y * w + x} \<Longrightarrow>
            a[y * w + x := lifeCell g w x y] ! j = b[y * w + x := lifeCell g w x y] ! j"
    proof -
      fix y x :: nat and a b :: "nat list" and j
      assume "length a = length b" "\<forall>j\<in>{y * w + x}. a ! j = b ! j" "j \<in> {y * w + x}"
      then have "length a = length b" "a ! (y * w + x) = b ! (y * w + x)" "j = y * w + x" by simp_all
      then show "a[y * w + x := lifeCell g w x y] ! j = b[y * w + x := lifeCell g w x y] ! j"
        using list_update_same_len [of a b "y * w + x" "lifeCell g w x y"] by (simp only:)
    qed
    show "\<And>y x y' x'. y \<in> set [1..<h - 1] \<Longrightarrow> x \<in> set [1..<w - 1] \<Longrightarrow>
            y' \<in> set [1..<h - 1] \<Longrightarrow> x' \<in> set [1..<w - 1] \<Longrightarrow> (y, x) \<noteq> (y', x') \<Longrightarrow>
            {y * w + x} \<inter> {y' * w + x'} = {}"
    proof -
      fix y x y' x' :: nat
      assume "x \<in> set [1..<w - 1]" "x' \<in> set [1..<w - 1]" and ne: "(y, x) \<noteq> (y', x')"
      then have "x < w - 1" "x' < w - 1" by simp_all
      then have "x < w" "x' < w" by linarith+
      then have "y * w + x \<noteq> y' * w + x'" using pixel_index_inj [of x w x' y y'] ne by auto
      then show "{y * w + x} \<inter> {y' * w + x'} = {}" by simp
    qed
    show "distinct [1..<h - 1]" "distinct [1..<w - 1]" by simp_all
    show "y \<in> set [1..<h - 1]" "x \<in> set [1..<w - 1]" using x y by simp_all
    show "y * w + x \<in> {y * w + x}" by simp
  qed
  then show ?thesis using inside by simp
qed

subsection \<open>The alpha byte of the displacement effects\<close>

lemma fractal_alpha:
  assumes wf: "wellFormed w h d" and p: "inRange p" and xy: "x < w" "y < h"
  shows "\<exists>s. fractalSrcIdx w h p x y = Some (int s) \<and> s + 3 < length d
           \<and> applyFractalDisplacement w h p d ! ((y * w + x) * 4 + 3) = d ! (s + 3)"
proof -
  have n: "1 \<le> iterationCount p" using p by (rule iterationCount_pos)
  have len: "length d = w * h * 4" and w0: "0 < w" and h0: "0 < h"
    using wf by (simp_all add: wellFormed_def)
  define mv where "mv = mandelbrot ((real x - real w / 2) * (scale p * 0.01))
                          ((real y - real h / 2) * (scale p * 0.01)) (nat (iterationCount p)) 0 0 0 0"
  define k where "k = \<lfloor>(real mv / real_of_int (iterationCount p)) * intensity p\<rfloor>"
  have disp: "fractalDisplacement w h p x y = Some k"
    using n by (simp add: fractalDisplacement_def Let_def k_def mv_def)
  have "0 \<le> (real mv / real_of_int (iterationCount p)) * intensity p"
    using n p by (simp add: inRange_def)
  then have k0: "0 \<le> k" by (simp add: k_def)
  define s where "s = diagSrcIdx w h x y k"
  have sb: "0 \<le> s" "s + 3 < int (length d)"
    using diagSrcIdx_bounds [OF w0 h0 k0, of x y] by (simp_all add: s_def len)
  have src: "fractalSrcIdx w h p x y = Some s" by (simp add: fractalSrcIdx_def disp s_def)
  have "applyFractalDisplacement w h p d ! ((y * w + x) * 4 + 3)
          = toUint8Clamp (rdAt d (fractalSrcIdx w h p x y) (int 3))"
    by (rule fractal_nth [OF xy len]) simp
  then have "applyFractalDisplacement w h p d ! ((y * w + x) * 4 + 3)
          = toUint8Clamp (rdAt d (Some s) (int 3))"
    unfolding src .
  also have "\<dots> = toUint8Clamp (Some (real (unat (d ! (nat s + 3)))))"
    using rdAt_in_range [OF sb, of 3] by simp
  also have "\<dots> = d ! (nat s + 3)" by (rule toUint8Clamp_byte)
  finally have a: "applyFractalDisplacement w h p d ! ((y * w + x) * 4 + 3) = d ! (nat s + 3)" .
  have "nat s + 3 < length d" using sb by linarith
  moreover have "fractalSrcIdx w h p x y = Some (int (nat s))" using src sb(1) by simp
  ultimately show ?thesis using a by blast
qed

lemma noise_alpha:
  assumes wf: "wellFormed w h d" and p: "inRange p" and xy: "x < w" "y < h"
  shows "\<exists>s. noiseSrcIdx w h p x y = Some (int s) \<and> s + 3 < length d
           \<and> applyPerlinNoiseGlitch w h p d ! ((y * w + x) * 4 + 3) = d ! (s + 3)"
proof -
  have n: "1 \<le> iterationCount p" using p by (rule iterationCount_pos)
  have len: "length d = w * h * 4" and w0: "0 < w" and h0: "0 < h"
    using wf by (simp_all add: wellFormed_def)
  obtain v where v: "noiseValue w h p x y = Some v" "0 \<le> v"
    using noiseValue_range [OF n] by blast
  define k where "k = \<lfloor>v * intensity p\<rfloor>"
  have "0 \<le> v * intensity p" using v(2) p by (simp add: inRange_def)
  then have k0: "0 \<le> k" by (simp add: k_def)
  define s where "s = diagSrcIdx w h x y k"
  have sb: "0 \<le> s" "s + 3 < int (length d)"
    using diagSrcIdx_bounds [OF w0 h0 k0, of x y] by (simp_all add: s_def len)
  have src: "noiseSrcIdx w h p x y = Some s" by (simp add: noiseSrcIdx_def v(1) s_def k_def)
  have "applyPerlinNoiseGlitch w h p d ! ((y * w + x) * 4 + 3)
          = toUint8Clamp (rdAt d (noiseSrcIdx w h p x y) 3)"
    by (rule noise_nth(4) [OF xy len])
  then have "applyPerlinNoiseGlitch w h p d ! ((y * w + x) * 4 + 3)
          = toUint8Clamp (rdAt d (Some s) (int 3))"
    unfolding src by simp
  also have "\<dots> = toUint8Clamp (Some (real (unat (d ! (nat s + 3)))))"
    using rdAt_in_range [OF sb, of 3] by simp
  also have "\<dots> = d ! (nat s + 3)" by (rule toUint8Clamp_byte)
  finally have a: "applyPerlinNoiseGlitch w h p d ! ((y * w + x) * 4 + 3) = d ! (nat s + 3)" .
  have "nat s + 3 < length d" using sb by linarith
  moreover have "noiseSrcIdx w h p x y = Some (int (nat s))" using src sb(1) by simp
  ultimately show ?thesis using a by blast
qed

lemma wave_alpha_inside:
  assumes wf: "wellFormed w h d" and xy: "x < w" "y < h"
    and sb: "0 \<le> waveSrcIdx w h p x y" "waveSrcIdx w h p x y + 3 < int (length d)"
  shows "applyWaveDistortion w h p d ! ((y * w + x) * 4 + 3) = d ! (nat (waveSrcIdx w h p x y) + 3)"
proof -
  have len: "length d = w * h * 4" using wf by (simp add: wellFormed_def)
  have "applyWaveDistortion w h p d ! ((y * w + x) * 4 + 3)
          = toUint8Clamp (rd d (waveSrcIdx w h p x y + int 3))"
    by (rule wave_nth [OF xy len]) simp
  then have "applyWaveDistortion w h p d ! ((y * w + x) * 4 + 3)
          = toUint8Clamp (rdAt d (Some (waveSrcIdx w h p x y)) (int 3))"
    by (simp add: rdAt_def)
  also have "\<dots> = toUint8Clamp (Some (real (unat (d ! (nat (waveSrcIdx w h p x y) + 3)))))"
    using rdAt_in_range [OF sb, of 3] by simp
  also have "\<dots> = d ! (nat (waveSrcIdx w h p x y) + 3)" by (rule toUint8Clamp_byte)
  finally show ?thesis .
qed

subsection \<open>Source images inside the bounds\<close>

lemma constructorDims_small:
  "w \<le> 800 \<Longrightarrow> h \<le> 600 \<Longrightarrow> constructorDims w h = (w, h)"
  by (simp add: constructorDims_def)

subsection \<open>The dispatcher with a scale below the range of the slider\<close>

lemma fractal_scale_10:
  "fractalSrcIdx 60 1 \<lparr>effectType = fractal, intensity = 31, scale = 10, iterations = 3, seed = 42\<rparr> 0 0
     = Some 40"
  by (simp add: fractalSrcIdx_def fractalDisplacement_def iterationCount_def diagSrcIdx_def
        jsrem_def Let_def)

lemma fractal_scale_5:
  "fractalSrcIdx 60 1 \<lparr>effectType = fractal, intensity = 31, scale = 5, iterations = 3, seed = 42\<rparr> 0 0
     = Some 80"
  by (simp add: fractalSrcIdx_def fractalDisplacement_def iterationCount_def diagSrcIdx_def
        jsrem_def Let_def)

lemma process_unclamped_scale:
  "process 60 1 \<lparr>effectType = fractal, intensity = 31, scale = 5, iterations = 3, seed = 42\<rparr>
      (map of_nat [0..<240])
   \<noteq> process 60 1 \<lparr>effectType = fractal, intensity = 31, scale = 10, iterations = 3, seed = 42\<rparr>
      (map of_nat [0..<240])"
proof -
  let ?d = "map of_nat [0..<240] :: byte list"
  let ?p5 = "\<lparr>effectType = fractal, intensity = 31, scale = 5, iterations = 3, seed = 42\<rparr>"
  let ?p10 = "\<lparr>effectType = fractal, intensity = 31, scale = 10, iterations = 3, seed = 42\<rparr>"
  have a: "applyFractalDisplacement 60 1 ?p5 ?d ! ((0 * 60 + 0) * 4 + 0)
             = toUint8Clamp (rdAt ?d (fractalSrcIdx 60 1 ?p5 0 0) (int 0))"
    by (rule fractal_nth) simp_all
  have b: "applyFractalDisplacement 60 1 ?p10 ?d ! ((0 * 60 + 0) * 4 + 0)
             = toUint8Clamp (rdAt ?d (fractalSrcIdx 60 1 ?p10 0 0) (int 0))"
    by (rule fractal_nth) simp_all
  have "toUint8Clamp (rdAt ?d (Some 80) (int 0)) = 80"
    using store_read_back [of 80 ?d] by (simp add: rdAt_def)
  then have a': "applyFractalDisplacement 60 1 ?p5 ?d ! 0 = 80"
    using a unfolding fractal_scale_5 by simp
  have "toUint8Clamp (rdAt ?d (Some 40) (int 0)) = 40"
    using store_read_back [of 40 ?d] by (simp add: rdAt_def)
  then have b': "applyFractalDisplacement 60 1 ?p10 ?d ! 0 = 40"
    using b unfolding fractal_scale_10 by simp
  have "(80 :: byte) \<noteq> 40" by simp
  then show ?thesis using a' b' by (auto simp add: process_def)
qed

subsection \<open>The dispatcher with an intensity above and an iteration count below the range\<close>

lemma roundHalfEven_bounds: "\<lfloor>r\<rfloor> \<le> roundHalfEven r \<and> roundHalfEven r \<le> \<lfloor>r\<rfloor> + 1"
  by (simp add: roundHalfEven_def Let_def)

lemma toUint8Clamp_above_127:
  assumes "128 \<le> r"
  shows "toUint8Clamp (Some r) \<noteq> 127"
proof (cases "255 \<le> r")
  case True
  then show ?thesis using assms by (simp add: toUint8Clamp_def)
next
  case False
  have lo: "128 \<le> \<lfloor>r\<rfloor>" using assms by (simp add: le_floor_iff)
  have hi: "\<lfloor>r\<rfloor> \<le> 254" using False by (simp add: floor_le_iff)
  have b: "128 \<le> roundHalfEven r" "roundHalfEven r \<le> 255"
    using roundHalfEven_bounds [of r] lo hi by linarith+
  have "uint (word_of_int (roundHalfEven r) :: byte) = roundHalfEven r"
    using b by (simp add: uint_word_of_int take_bit_int_eq_self)
  then have "uint (word_of_int (roundHalfEven r) :: byte) \<noteq> uint (127 :: byte)"
    using b by simp
  then have "(word_of_int (roundHalfEven r) :: byte) \<noteq> 127" by metis
  then show ?thesis using False assms by (simp add: toUint8Clamp_def)
qed

lemma noise_above_range_differs:
  assumes "100 < (i::int)"
  shows "process 1 1 \<lparr>effectType = noise, intensity = real_of_int i, scale = 50, iterations = 1, seed = 42\<rparr>
           [0, 0, 0, 255]
         \<noteq> process 1 1
             (specClampParams
                \<lparr>effectType = noise, intensity = real_of_int i, scale = 50, iterations = 1, seed = 42\<rparr>)
             [0, 0, 0, 255]"
proof -
  let ?p = "\<lparr>effectType = noise, intensity = real_of_int i, scale = 50, iterations = 1, seed = 42\<rparr>"
  let ?q = "\<lparr>effectType = noise, intensity = 100, scale = 50, iterations = 1, seed = 42\<rparr>"
  let ?d = "[0, 0, 0, 255] :: byte list"
  have c: "specClampParams ?p = ?q" using assms by (simp add: specClampParams_def)
  have "101 \<le> real_of_int i" using assms by linarith
  then have "128 \<le> 127 * (real_of_int i / 100)" by simp
  then have "128 \<le> min 255 (127 * (real_of_int i / 100))" by simp
  then have "toUint8Clamp (Some (min 255 (127 * (real_of_int i / 100)))) \<noteq> 127"
    by (rule toUint8Clamp_above_127)
  moreover have "applyPerlinNoiseGlitch 1 1 ?p ?d ! 0
                   = toUint8Clamp (Some (min 255 (127 * (real_of_int i / 100))))"
    using assms by (intro noise_black_red) simp
  moreover have "applyPerlinNoiseGlitch 1 1 ?q ?d ! 0 = 127"
    using noise_black_red [of 100] by (simp add: toUint8Clamp_def roundHalfEven_def)
  ultimately have "applyPerlinNoiseGlitch 1 1 ?p ?d \<noteq> applyPerlinNoiseGlitch 1 1 ?q ?d" by metis
  then show ?thesis unfolding c by (simp add: process_def)
qed

lemma scale_below_range_differs:
  "process 60 1 \<lparr>effectType = fractal, intensity = 31, scale = 5, iterations = 3, seed = 42\<rparr>
      (map of_nat [0..<240])
   \<noteq> process 60 1
       (specClampParams \<lparr>effectType = fractal, intensity = 31, scale = 5, iterations = 3, seed = 42\<rparr>)
       (map of_nat [0..<240])"
proof -
  have c: "specClampParams \<lparr>effectType = fractal, intensity = 31, scale = 5, iterations = 3, seed = 42\<rparr>
          = \<lparr>effectType = fractal, intensity = 31, scale = 10, iterations = 3, seed = 42\<rparr>"
    by (simp add: specClampParams_def)
  show ?thesis unfolding c by (rule process_unclamped_scale)
qed

lemma chromatic_one_iteration:
  "applyChromaticAberration 2 1
      \<lparr>effectType = chromatic, intensity = 5, scale = 50, iterations = 1, seed = 42\<rparr>
      [0, 0, 0, 255, 100, 0, 0, 255] = [50, 0, 0, 255, 50, 0, 0, 255]"
proof -
  have u: "[0..<2] = [0, Suc 0]" by (simp add: numeral_2_eq_2)
  show ?thesis
    by (simp add: applyChromaticAberration_def chromaIteration_def chromaDelta_def chromaOffset_def
        offsetAmount_def iterationCount_def chromaPixel_def chromaSrcX_def chromaSrcY_def u
        jsrem_def Math_round_def wr_def rd_def blend_def toUint8Clamp_def roundHalfEven_def Let_def)
qed

lemma iterations_below_range_differs:
  "process 2 1 \<lparr>effectType = chromatic, intensity = 5, scale = 50, iterations = 0, seed = 42\<rparr>
      [0, 0, 0, 255, 100, 0, 0, 255]
   \<noteq> process 2 1
       (specClampParams \<lparr>effectType = chromatic, intensity = 5, scale = 50, iterations = 0, seed = 42\<rparr>)
       [0, 0, 0, 255, 100, 0, 0, 255]"
proof -
  have c: "specClampParams \<lparr>effectType = chromatic, intensity = 5, scale = 50, iterations = 0, seed = 42\<rparr>
          = \<lparr>effectType = chromatic, intensity = 5, scale = 50, iterations = 1, seed = 42\<rparr>"
    by (simp add: specClampParams_def)
  have z: "applyChromaticAberration 2 1
      \<lparr>effectType = chromatic, intensity = 5, scale = 50, iterations = 0, seed = 42\<rparr>
      [0, 0, 0, 255, 100, 0, 0, 255] = [0, 0, 0, 255, 100, 0, 0, 255]"
    by (simp add: applyChromaticAberration_def iterationCount_def)
  have "([0, 0, 0, 255, 100, 0, 0, 255] :: byte list) \<noteq> [50, 0, 0, 255, 50, 0, 0, 255]" by simp
  then show ?thesis unfolding c process_def
    by (simp only: EffectParams.simps EffectType.case z chromatic_one_iteration not_False_eq_True)
qed

subsection \<open>Rounding to nearest and the octave sums\<close>

lemma nearest_exactOps: "nearest exactOps"
  by (simp add: nearest_def exactOps_def)

lemma rnd_zero: "nearest fl \<Longrightarrow> rnd fl 0 = 0"
proof -
  assume "nearest fl"
  then have "rnd fl (- 0) = - rnd fl 0" unfolding nearest_def by blast
  then show ?thesis by simp
qed

lemma rnd_mono: "nearest fl \<Longrightarrow> x \<le> y \<Longrightarrow> rnd fl x \<le> rnd fl y"
  unfolding nearest_def by blast

lemma rnd_nonneg: "nearest fl \<Longrightarrow> 0 \<le> x \<Longrightarrow> 0 \<le> rnd fl x"
  using rnd_mono [of fl 0 x] rnd_zero [of fl] by simp

lemma rnd_idem: "nearest fl \<Longrightarrow> rnd fl (rnd fl x) = rnd fl x"
  unfolding nearest_def by blast

lemma rnd_abs_le:
  assumes fl: "nearest fl" and b: "rnd fl b = b" and x: "\<bar>x\<bar> \<le> b"
  shows "\<bar>rnd fl x\<bar> \<le> b"
proof -
  have "rnd fl (- b) = - b" using fl b unfolding nearest_def by metis
  moreover have "rnd fl (- b) \<le> rnd fl x" using x by (intro rnd_mono [OF fl]) simp
  moreover have "rnd fl x \<le> rnd fl b" using x by (intro rnd_mono [OF fl]) simp
  ultimately show ?thesis using b by simp
qed

lemma octave_term_bound:
  assumes fl: "nearest fl" and amp: "rnd fl amp = amp" "0 \<le> amp"
  shows "\<bar>rnd fl (rnd fl (amp * msin fl a) * mcos fl b)\<bar> \<le> amp"
proof -
  have s: "\<bar>msin fl a\<bar> \<le> 1" and c: "\<bar>mcos fl b\<bar> \<le> 1"
    using fl unfolding nearest_def by blast+
  have "\<bar>amp * msin fl a\<bar> = amp * \<bar>msin fl a\<bar>" using amp(2) by (simp add: abs_mult)
  also have "\<dots> \<le> amp * 1" using s amp(2) by (intro mult_left_mono)
  finally have "\<bar>amp * msin fl a\<bar> \<le> amp" by simp
  then have 1: "\<bar>rnd fl (amp * msin fl a)\<bar> \<le> amp" using fl amp(1) by (intro rnd_abs_le)
  have "\<bar>rnd fl (amp * msin fl a) * mcos fl b\<bar> = \<bar>rnd fl (amp * msin fl a)\<bar> * \<bar>mcos fl b\<bar>"
    by (rule abs_mult)
  also have "\<dots> \<le> amp * 1" using 1 c by (intro mult_mono) simp_all
  finally have "\<bar>rnd fl (amp * msin fl a) * mcos fl b\<bar> \<le> amp" by simp
  then show ?thesis using fl amp(1) by (intro rnd_abs_le)
qed

lemma octave_sum_bound:
  assumes fl: "nearest fl" and t: "\<bar>t\<bar> \<le> amp" and nv: "\<bar>nv\<bar> \<le> mx"
  shows "\<bar>rnd fl (nv + t)\<bar> \<le> rnd fl (mx + amp)"
proof -
  have "rnd fl (- (mx + amp)) = - rnd fl (mx + amp)" using fl unfolding nearest_def by blast
  moreover have "rnd fl (- (mx + amp)) \<le> rnd fl (nv + t)"
    using t nv by (intro rnd_mono [OF fl]) linarith
  moreover have "rnd fl (nv + t) \<le> rnd fl (mx + amp)"
    using t nv by (intro rnd_mono [OF fl]) linarith
  ultimately show ?thesis by simp
qed

lemma noiseOctavesD_bound:
  assumes fl: "nearest fl" and n: "1 \<le> iterationCount p"
  shows "case noiseOctavesD fl w h p x y of (nv, amp, fr, mx) \<Rightarrow> \<bar>nv\<bar> \<le> mx \<and> 1 \<le> mx"
proof -
  let ?f = "\<lambda>i (noiseValue, amplitude, frequency, maxValue).
             let sc = rnd fl (scale p * rnd fl 0.01);
                 sampleX = rnd fl (rnd fl (rnd fl (real x * frequency) * sc) / real w);
                 sampleY = rnd fl (rnd fl (rnd fl (real y * frequency) * sc) / real h);
                 s = msin fl (rnd fl (sampleX * rnd fl pi));
                 c = mcos fl (rnd fl (sampleY * rnd fl pi))
             in (rnd fl (noiseValue + rnd fl (rnd fl (amplitude * s) * c)),
                 rnd fl (amplitude * 0.5), rnd fl (frequency * 2), rnd fl (maxValue + amplitude))"
  let ?Q = "\<lambda>m s. case s of (nv, amp, fr, mx) \<Rightarrow>
              \<bar>nv\<bar> \<le> mx \<and> 0 \<le> amp \<and> rnd fl amp = amp \<and> rnd fl mx = mx \<and> (m::real) \<le> mx"
  have r1: "rnd fl 1 = 1" using fl unfolding nearest_def by blast
  have step: "\<And>k s m. ?Q m s \<Longrightarrow> ?Q m (?f k s)"
  proof -
    fix k :: nat and s :: "real \<times> real \<times> real \<times> real" and m :: real
    assume q: "?Q m s"
    obtain nv amp fr mx where s: "s = (nv, amp, fr, mx)" by (cases s)
    have h: "\<bar>nv\<bar> \<le> mx" "0 \<le> amp" "rnd fl amp = amp" "rnd fl mx = mx" "m \<le> mx"
      using q unfolding s by simp_all
    have a: "\<And>a b. \<bar>rnd fl (nv + rnd fl (rnd fl (amp * msin fl a) * mcos fl b))\<bar> \<le> rnd fl (mx + amp)"
      using octave_sum_bound [OF fl octave_term_bound [OF fl h(3,2)] h(1)] .
    have b: "0 \<le> rnd fl (amp * 0.5)" using h(2) by (intro rnd_nonneg [OF fl]) simp
    have "rnd fl mx \<le> rnd fl (mx + amp)" using h(2) by (intro rnd_mono [OF fl]) simp
    then have c: "m \<le> rnd fl (mx + amp)" using h(4,5) by simp
    show "?Q m (?f k s)"
      unfolding s using a b c by (simp add: Let_def rnd_idem [OF fl])
  qed
  have first: "?Q 1 (?f 0 (0, 1, 1, 0))"
  proof -
    have "?Q 0 (0, 1, 1, 0)" using r1 rnd_zero [OF fl] by simp
    then have "?Q 0 (?f 0 (0, 1, 1, 0))" by (rule step)
    then show ?thesis using r1 by (simp add: Let_def)
  qed
  obtain k where k: "nat (iterationCount p) = Suc k"
    using n by (cases "nat (iterationCount p)") simp_all
  have "[0..<Suc k] = 0 # [1..<Suc k]" by (simp add: upt_conv_Cons)
  then have e: "noiseOctavesD fl w h p x y = fold ?f [1..<Suc k] (?f 0 (0, 1, 1, 0))"
    unfolding noiseOctavesD_def k by simp
  have "?Q 1 (fold ?f [1..<Suc k] (?f 0 (0, 1, 1, 0)))"
    using first by (rule fold_invariant [where P = "?Q 1", rotated]) (rule step)
  then show ?thesis unfolding e by (auto simp add: case_prod_beta)
qed

lemma noiseValueD_nonneg:
  assumes fl: "nearest fl" and n: "1 \<le> iterationCount p"
  obtains v where "noiseValueD fl w h p x y = Some v" "0 \<le> v"
proof -
  obtain nv amp fr mx where s: "noiseOctavesD fl w h p x y = (nv, amp, fr, mx)"
    by (cases "noiseOctavesD fl w h p x y")
  have b: "\<bar>nv\<bar> \<le> mx" "1 \<le> mx"
    using noiseOctavesD_bound [OF fl n, of w h x y] unfolding s by simp_all
  have r1: "rnd fl 1 = 1" using fl unfolding nearest_def by blast
  have "rnd fl (- 1) = - 1" using fl r1 unfolding nearest_def by metis
  moreover have "- 1 \<le> nv / mx" using b by (simp add: field_simps)
  then have "rnd fl (- 1) \<le> rnd fl (nv / mx)" by (rule rnd_mono [OF fl])
  ultimately have "0 \<le> rnd fl (nv / mx) + 1" by simp
  then have "0 \<le> rnd fl (rnd fl (nv / mx) + 1)" by (rule rnd_nonneg [OF fl])
  then have "0 \<le> rnd fl (rnd fl (nv / mx) + 1) / 2" by simp
  then have 2: "0 \<le> rnd fl (rnd fl (rnd fl (nv / mx) + 1) / 2)" by (rule rnd_nonneg [OF fl])
  have 1: "noiseValueD fl w h p x y = Some (rnd fl (rnd fl (rnd fl (nv / mx) + 1) / 2))"
    using b by (simp add: noiseValueD_def s)
  show ?thesis using that [OF 1 2] .
qed

subsection \<open>The conversion of the clamped byte array rounds to nearest, ties to even\<close>

lemma roundHalfEven_nearest:
  "\<bar>real_of_int (roundHalfEven r) - r\<bar> \<le> 1 / 2
   \<and> (\<bar>real_of_int (roundHalfEven r) - r\<bar> = 1 / 2 \<longrightarrow> even (roundHalfEven r))"
proof -
  define f where "f = \<lfloor>r\<rfloor>"
  have fr: "real_of_int f \<le> r" "r < real_of_int f + 1" unfolding f_def by linarith+
  consider "r - real_of_int f < 1 / 2" | "1 / 2 < r - real_of_int f" | "r - real_of_int f = 1 / 2"
    by linarith
  then show ?thesis
  proof cases
    case 1
    then have "roundHalfEven r = f" by (simp add: roundHalfEven_def f_def)
    then show ?thesis using 1 fr by simp
  next
    case 2
    then have "roundHalfEven r = f + 1" by (simp add: roundHalfEven_def f_def)
    then show ?thesis using 2 fr by simp
  next
    case 3
    show ?thesis
    proof (cases "even f")
      case True
      then have "roundHalfEven r = f" using 3 by (simp add: roundHalfEven_def f_def)
      then show ?thesis using 3 True by simp
    next
      case False
      then have "roundHalfEven r = f + 1" using 3 by (simp add: roundHalfEven_def f_def)
      then show ?thesis using 3 False by simp
    qed
  qed
qed

lemma unat_byte_of_int:
  assumes "0 \<le> k" "k \<le> 255"
  shows "int (unat (word_of_int k :: byte)) = k"
proof -
  have "uint (word_of_int k :: byte) = k"
    using assms by (simp add: uint_word_of_int take_bit_int_eq_self)
  then show ?thesis by simp
qed

lemma toUint8Clamp_nearest:
  assumes "0 \<le> r" "r \<le> 255"
  shows "\<bar>real_of_int (int (unat (toUint8Clamp (Some r)))) - r\<bar> \<le> 1 / 2
       \<and> (\<bar>real_of_int (int (unat (toUint8Clamp (Some r)))) - r\<bar> = 1 / 2
            \<longrightarrow> even (unat (toUint8Clamp (Some r))))"
proof -
  consider "r = 0" | "r = 255" | "0 < r" "r < 255" using assms by linarith
  then show ?thesis
  proof cases
    case 1
    then show ?thesis by (simp add: toUint8Clamp_def)
  next
    case 2
    then show ?thesis by (simp add: toUint8Clamp_def)
  next
    case 3
    define k where "k = roundHalfEven r"
    have b: "\<lfloor>r\<rfloor> \<le> k" "k \<le> \<lfloor>r\<rfloor> + 1" using roundHalfEven_bounds [of r] by (simp_all add: k_def)
    have "0 \<le> \<lfloor>r\<rfloor>" "\<lfloor>r\<rfloor> \<le> 254" using 3 by (simp_all add: floor_le_iff le_floor_iff)
    then have kb: "0 \<le> k" "k \<le> 255" using b by linarith+
    have t: "toUint8Clamp (Some r) = word_of_int k"
      using 3 by (simp add: toUint8Clamp_inside k_def)
    have u: "int (unat (toUint8Clamp (Some r))) = k" unfolding t using kb by (rule unat_byte_of_int)
    have e: "even (unat (toUint8Clamp (Some r))) = even k"
      using u by (metis even_of_nat)
    show ?thesis unfolding u e using roundHalfEven_nearest [of r] by (simp add: k_def)
  qed
qed

subsection \<open>Layered noise over doubles, pixel by pixel\<close>

lemma length_noisePixelD: "length (noisePixelD fl d w h p y x a) = length a"
  by (simp add: noisePixelD_def Let_def length_wr)

lemma noisePixelD_frame:
  "j \<notin> {(y * w + x) * 4 ..< (y * w + x) * 4 + 4} \<Longrightarrow> noisePixelD fl d w h p y x a ! j = a ! j"
  by (auto simp add: noisePixelD_def Let_def nth_wr)

lemma noisePixelD_loc:
  assumes "length a = length b"
    "\<forall>j\<in>{(y * w + x) * 4 ..< (y * w + x) * 4 + 4}. a ! j = b ! j"
    "j \<in> {(y * w + x) * 4 ..< (y * w + x) * 4 + 4}"
  shows "noisePixelD fl d w h p y x a ! j = noisePixelD fl d w h p y x b ! j"
  using assms by (simp add: noisePixelD_def Let_def nth_wr length_wr)

lemma noisePixelD_nth:
  assumes "(y * w + x) * 4 + 3 < length a"
  shows "noisePixelD fl d w h p y x a ! ((y * w + x) * 4)
           = toUint8Clamp (min255 (plusD fl (rdAt d (noiseSrcIdxD fl w h p x y) 0)
                                            (shiftAmountD fl w h p x y)))"
    and "noisePixelD fl d w h p y x a ! ((y * w + x) * 4 + 1)
           = toUint8Clamp (min255 (plusD fl (rdAt d (noiseSrcIdxD fl w h p x y) 1)
                 (map_option (\<lambda>s. rnd fl (s / 2)) (shiftAmountD fl w h p x y))))"
    and "noisePixelD fl d w h p y x a ! ((y * w + x) * 4 + 2)
           = toUint8Clamp (min255 (minusD fl (rdAt d (noiseSrcIdxD fl w h p x y) 2)
                 (map_option (\<lambda>s. rnd fl (s / 2)) (shiftAmountD fl w h p x y))))"
    and "noisePixelD fl d w h p y x a ! ((y * w + x) * 4 + 3)
           = toUint8Clamp (rdAt d (noiseSrcIdxD fl w h p x y) 3)"
  using assms by (simp_all add: noisePixelD_def Let_def nth_wr length_wr)

lemma noiseD_loop:
  assumes "x < w" "y < h" "c < 4"
  shows "applyPerlinNoiseGlitchD fl w h p d ! ((y * w + x) * 4 + c)
           = noisePixelD fl d w h p y x d ! ((y * w + x) * 4 + c)"
  unfolding applyPerlinNoiseGlitchD_def
proof (rule pixel_loop_owner)
  show "\<And>y x a j. j \<notin> {(y * w + x) * 4..<(y * w + x) * 4 + 4} \<Longrightarrow>
          noisePixelD fl d w h p y x a ! j = a ! j"
    by (rule noisePixelD_frame)
  show "\<And>y x a. length (noisePixelD fl d w h p y x a) = length a"
    by (rule length_noisePixelD)
  show "\<And>y x a b j. length a = length b \<Longrightarrow>
          \<forall>j\<in>{(y * w + x) * 4..<(y * w + x) * 4 + 4}. a ! j = b ! j \<Longrightarrow>
          j \<in> {(y * w + x) * 4..<(y * w + x) * 4 + 4} \<Longrightarrow>
          noisePixelD fl d w h p y x a ! j = noisePixelD fl d w h p y x b ! j"
    by (rule noisePixelD_loc)
  show "x < w" "y < h" "c < 4" by (rule assms)+
qed

lemma noiseD_nth:
  assumes "x < w" "y < h" "length d = w * h * 4"
  shows "applyPerlinNoiseGlitchD fl w h p d ! ((y * w + x) * 4)
           = toUint8Clamp (min255 (plusD fl (rdAt d (noiseSrcIdxD fl w h p x y) 0)
                                            (shiftAmountD fl w h p x y)))"
    and "applyPerlinNoiseGlitchD fl w h p d ! ((y * w + x) * 4 + 1)
           = toUint8Clamp (min255 (plusD fl (rdAt d (noiseSrcIdxD fl w h p x y) 1)
                 (map_option (\<lambda>s. rnd fl (s / 2)) (shiftAmountD fl w h p x y))))"
    and "applyPerlinNoiseGlitchD fl w h p d ! ((y * w + x) * 4 + 2)
           = toUint8Clamp (min255 (minusD fl (rdAt d (noiseSrcIdxD fl w h p x y) 2)
                 (map_option (\<lambda>s. rnd fl (s / 2)) (shiftAmountD fl w h p x y))))"
proof -
  have b: "(y * w + x) * 4 + 3 < length d" using pixel_bound [OF assms(1,2)] assms(3) by simp
  show "applyPerlinNoiseGlitchD fl w h p d ! ((y * w + x) * 4)
           = toUint8Clamp (min255 (plusD fl (rdAt d (noiseSrcIdxD fl w h p x y) 0)
                                            (shiftAmountD fl w h p x y)))"
    using noiseD_loop [OF assms(1,2), of 0 fl p d] noisePixelD_nth(1) [OF b] by simp
  show "applyPerlinNoiseGlitchD fl w h p d ! ((y * w + x) * 4 + 1)
           = toUint8Clamp (min255 (plusD fl (rdAt d (noiseSrcIdxD fl w h p x y) 1)
                 (map_option (\<lambda>s. rnd fl (s / 2)) (shiftAmountD fl w h p x y))))"
    using noiseD_loop [OF assms(1,2), of 1 fl p d] noisePixelD_nth(2) [OF b] by simp
  show "applyPerlinNoiseGlitchD fl w h p d ! ((y * w + x) * 4 + 2)
           = toUint8Clamp (min255 (minusD fl (rdAt d (noiseSrcIdxD fl w h p x y) 2)
                 (map_option (\<lambda>s. rnd fl (s / 2)) (shiftAmountD fl w h p x y))))"
    using noiseD_loop [OF assms(1,2), of 2 fl p d] noisePixelD_nth(3) [OF b] by simp
qed

subsection \<open>The first rendering of the noise effect is the instance at the exact reals\<close>

lemma exactOps_sel: "rnd exactOps x = x" "msin exactOps x = sin x" "mcos exactOps x = cos x"
  by (simp_all add: exactOps_def)

lemma noiseValueD_exact: "noiseValueD exactOps w h p x y = noiseValue w h p x y"
proof -
  have o: "noiseOctavesD exactOps w h p x y = noiseOctaves w h p x y"
    by (simp add: noiseOctavesD_def noiseOctaves_def exactOps_sel Let_def)
  show ?thesis
    by (simp add: noiseValueD_def noiseValue_def o exactOps_sel split: prod.splits)
qed

lemma noiseD_exact:
  "applyPerlinNoiseGlitchD exactOps w h p d = applyPerlinNoiseGlitch w h p d"
proof -
  have s: "\<And>x y. noiseSrcIdxD exactOps w h p x y = noiseSrcIdx w h p x y"
    by (simp add: noiseSrcIdxD_def noiseSrcIdx_def noiseValueD_exact exactOps_sel)
  have c: "\<And>x y. colorShiftD exactOps w h p x y = colorShift w h p x y"
    by (simp add: colorShiftD_def colorShift_def noiseValueD_exact exactOps_sel)
  have a: "\<And>x y. shiftAmountD exactOps w h p x y = shiftAmount w h p x y"
    by (simp add: shiftAmountD_def shiftAmount_def c exactOps_sel)
  have pl: "\<And>u v. plusD exactOps u v = plus u v"
    by (simp add: plusD_def plus_def exactOps_sel split: option.splits)
  have mi: "\<And>u v. minusD exactOps u v = plus u (map_option (\<lambda>s. - s) v)"
    by (simp add: minusD_def plus_def exactOps_sel option.map_comp comp_def split: option.splits)
  have px: "\<And>y x a. noisePixelD exactOps d w h p y x a = noisePixel d w h p y x a"
    unfolding noisePixelD_def noisePixel_def noiseRed_def noiseGreen_def noiseBlue_def Let_def
      s a pl mi
    by (simp add: exactOps_sel option.map_comp comp_def)
  show ?thesis
    unfolding applyPerlinNoiseGlitchD_def applyPerlinNoiseGlitch_def px ..
qed

subsection \<open>Cellular evolution over doubles\<close>

lemma length_initGridD: "length (initGridD fl w h d) = w * h"
proof -
  have "length (initGridD fl w h d) = length (replicate (w * h) (0::nat))"
    unfolding initGridD_def by (rule fold_length_inv) simp
  then show ?thesis by simp
qed

lemma initGridD_nth:
  assumes "k < w * h" "k < (length d + 3) div 4"
  shows "initGridD fl w h d ! k = initCellD fl d k"
proof -
  let ?f = "\<lambda>k grid. grid[k := initCellD fl d k]"
  have "fold ?f [0..<(length d + 3) div 4] (replicate (w * h) 0) ! k
          = ?f k (replicate (w * h) 0) ! k"
  proof (rule fold_owner_aux [where K = UNIV and S = "\<lambda>k. {k}"])
    show "\<And>k a j. k \<in> UNIV \<Longrightarrow> j \<notin> {k} \<Longrightarrow> a[k := initCellD fl d k] ! j = a ! j"
      by simp
    show "\<And>k a. k \<in> UNIV \<Longrightarrow> length (a[k := initCellD fl d k]) = length a"
      by simp
    show "\<And>k a b j. k \<in> UNIV \<Longrightarrow> length a = length b \<Longrightarrow> \<forall>j\<in>{k}. a ! j = b ! j \<Longrightarrow>
            j \<in> {k} \<Longrightarrow> a[k := initCellD fl d k] ! j = b[k := initCellD fl d k] ! j"
    proof -
      fix k :: nat and a b :: "nat list" and j
      assume "length a = length b" "\<forall>j\<in>{k}. a ! j = b ! j" "j \<in> {k}"
      then have "length a = length b" "a ! k = b ! k" "j = k" by simp_all
      then show "a[k := initCellD fl d k] ! j = b[k := initCellD fl d k] ! j"
        using list_update_same_len [of a b k "initCellD fl d k"] by (simp only:)
    qed
    show "\<And>k k'. k \<in> UNIV \<Longrightarrow> k' \<in> UNIV \<Longrightarrow> k \<noteq> k' \<Longrightarrow> {k} \<inter> {k'} = {}"
      by simp
    show "k \<in> {k}" by simp
    show "set [0..<(length d + 3) div 4] \<subseteq> UNIV" by simp
    show "distinct [0..<(length d + 3) div 4]" by simp
    show "k \<in> set [0..<(length d + 3) div 4]" using assms(2) by simp
  qed
  then show ?thesis unfolding initGridD_def using assms(1) by simp
qed

lemma length_recolorCellD: "length (recolorCellD fl d p g i a) = length a"
  by (simp add: recolorCellD_def Let_def length_wr)

lemma recolorCellD_frame:
  "j \<notin> {i * 4 ..< i * 4 + 3} \<Longrightarrow> recolorCellD fl d p g i a ! j = a ! j"
  by (auto simp add: recolorCellD_def Let_def nth_wr)

lemma recolorCellD_loc:
  assumes "length a = length b" "\<forall>j\<in>{i * 4 ..< i * 4 + 3}. a ! j = b ! j" "j \<in> {i * 4 ..< i * 4 + 3}"
  shows "recolorCellD fl d p g i a ! j = recolorCellD fl d p g i b ! j"
  using assms by (simp add: recolorCellD_def Let_def nth_wr length_wr)

lemma recolorCellD_nth:
  assumes "i * 4 + 2 < length a" "c < 3"
  shows "recolorCellD fl d p g i a ! (i * 4 + c) = toUint8Clamp (darkenD fl d p (g ! i) (i * 4 + c))"
proof -
  consider "c = 0" | "c = 1" | "c = 2" using assms(2) by linarith
  then show ?thesis
    using assms(1) by cases (simp_all add: recolorCellD_def Let_def nth_wr length_wr)
qed

lemma recolorD_nth:
  assumes "i < length g" "i * 4 + 2 < length d" "c < 3"
  shows "recolorD fl d p g ! (i * 4 + c) = toUint8Clamp (darkenD fl d p (g ! i) (i * 4 + c))"
proof -
  let ?K = "set [0..<length g]"
  have disj: "\<And>k k'. k \<in> ?K \<Longrightarrow> k' \<in> ?K \<Longrightarrow> k \<noteq> k' \<Longrightarrow>
            {k * 4..<k * 4 + 3} \<inter> {k' * 4..<k' * 4 + 3} = {}"
  proof -
    fix k k' :: nat assume "k \<noteq> k'"
    then have "k * 4 + 4 \<le> k' * 4 \<or> k' * 4 + 4 \<le> k * 4" by linarith
    then show "{k * 4..<k * 4 + 3} \<inter> {k' * 4..<k' * 4 + 3} = {}" by auto
  qed
  have mem: "i * 4 + c \<in> {i * 4..<i * 4 + 3}" using assms(3) by simp
  have "fold (recolorCellD fl d p g) [0..<length g] d ! (i * 4 + c)
          = recolorCellD fl d p g i d ! (i * 4 + c)"
    by (rule fold_owner_aux [where K = ?K and S = "\<lambda>i. {i * 4 ..< i * 4 + 3}",
          OF recolorCellD_frame length_recolorCellD recolorCellD_loc disj mem])
       (use assms(1) in simp_all)
  then show ?thesis unfolding recolorD_def using recolorCellD_nth [OF assms(2,3)] by simp
qed

lemma recolorD_alpha:
  assumes "j mod 4 = 3"
  shows "recolorD fl d p g ! j = d ! j"
  unfolding recolorD_def
proof (rule fold_frame [where S = "\<lambda>i. {i * 4 ..< i * 4 + 3}"])
  show "\<And>k a. k \<in> set [0..<length g] \<Longrightarrow> j \<notin> {k * 4..<k * 4 + 3} \<Longrightarrow>
          recolorCellD fl d p g k a ! j = a ! j"
    by (rule recolorCellD_frame)
  show "\<forall>k\<in>set [0..<length g]. j \<notin> {k * 4..<k * 4 + 3}"
  proof
    fix k
    show "j \<notin> {k * 4..<k * 4 + 3}"
    proof
      assume "j \<in> {k * 4..<k * 4 + 3}"
      then obtain c where c: "c < 3" "j = k * 4 + c"
        by (metis atLeastLessThan_iff le_Suc_ex nat_add_left_cancel_less)
      then have "j mod 4 = c" using mod4_offset [of c k] by simp
      then show False using assms c(1) by simp
    qed
  qed
qed

lemma cellular_alpha:
  "j mod 4 = 3 \<Longrightarrow> applyCellularAutomataD fl w h p d ! j = d ! j"
  unfolding applyCellularAutomataD_def by (rule recolorD_alpha)

section \<open>Results\<close>

text \<open>
  C3 (the code departs from it). A source image of 700 by 650 pixels exceeds the height
  bound; the constructor compares width with height instead of the two ratios to the
  bounds, sets the width to 800 and the height to 743: wider than the source and higher
  than 600.
\<close>

theorem constructorDims_700_650: "constructorDims 700 650 = (800, 743)"
  by (simp add: constructorDims_def Math_round_def)

text \<open>
  C1 (the code departs from it). Chromatic displacement on a buffer 3 pixels wide with
  intensity 100 and two iterations: the second iteration has the deltas (-20, 0), and for
  the destination column 0 the sampled column is \<open>(0 - 20 + 3) % 3 = -2\<close>, outside
  \<open>[0, 3)\<close>: adding the width once does not make the truncating remainder non-negative.
\<close>

theorem chromatic_sample_outside:
  "chromaDelta \<lparr>effectType = chromatic, intensity = 100, scale = 50, iterations = 2, seed = 42\<rparr> 1
     = (- 20, 0)
   \<and> chromaSrcX 3 (- 20) 0 = - 2"
  by (simp add: chromaDelta_def chromaOffset_def offsetAmount_def iterationCount_def
        Math_round_def chromaSrcX_def jsrem_def)

text \<open>
  C2 (amended). \<open>process\<close> does not clamp: on one black opaque pixel the noise effect
  with intensity 150 stores red 190, with intensity 100 it stores red 127.
\<close>

theorem process_unclamped_intensity:
  "process 1 1 \<lparr>effectType = noise, intensity = 150, scale = 50, iterations = 1, seed = 42\<rparr>
      [0, 0, 0, 255]
   \<noteq> process 1 1 \<lparr>effectType = noise, intensity = 100, scale = 50, iterations = 1, seed = 42\<rparr>
      [0, 0, 0, 255]"
proof -
  have a: "applyPerlinNoiseGlitch 1 1
           \<lparr>effectType = noise, intensity = 150, scale = 50, iterations = 1, seed = 42\<rparr>
           [0, 0, 0, 255] ! 0 = 190"
    using noise_black_red [of 150] by (simp add: toUint8Clamp_def roundHalfEven_190)
  have b: "applyPerlinNoiseGlitch 1 1
           \<lparr>effectType = noise, intensity = 100, scale = 50, iterations = 1, seed = 42\<rparr>
           [0, 0, 0, 255] ! 0 = 127"
    using noise_black_red [of 100] by (simp add: toUint8Clamp_def roundHalfEven_def)
  have "(190 :: byte) \<noteq> 127" by simp
  then show ?thesis using a b by (auto simp add: process_def)
qed

text \<open>
  C2 as amended: the dispatcher hands the record to the selected effect as it is, for
  every record. For a record inside the ranges of the sliders this is what clamping would
  give; outside it is not: every integer intensity above 100 gives, with the noise effect
  on one black opaque pixel, an output other than that of the clamped record, and so do
  scale 5 (fractal effect, a ramp 60 pixels wide) and iteration count 0 (chromatic
  effect, two pixels).
\<close>

theorem process_passes_params:
  "process w h p d =
     (case effectType p of
        chromatic \<Rightarrow> applyChromaticAberration w h p d
      | fractal \<Rightarrow> applyFractalDisplacement w h p d
      | cellular \<Rightarrow> applyCellularAutomata w h p d
      | wave \<Rightarrow> applyWaveDistortion w h p d
      | noise \<Rightarrow> applyPerlinNoiseGlitch w h p d)
   \<and> (inRange p \<longrightarrow> process w h (specClampParams p) d = process w h p d)
   \<and> (\<forall>i::int. 100 < i \<longrightarrow>
         process 1 1
           \<lparr>effectType = noise, intensity = real_of_int i, scale = 50, iterations = 1, seed = 42\<rparr>
           [0, 0, 0, 255]
         \<noteq> process 1 1
             (specClampParams
                \<lparr>effectType = noise, intensity = real_of_int i, scale = 50, iterations = 1, seed = 42\<rparr>)
             [0, 0, 0, 255])
   \<and> process 60 1 \<lparr>effectType = fractal, intensity = 31, scale = 5, iterations = 3, seed = 42\<rparr>
         (map of_nat [0..<240])
       \<noteq> process 60 1
           (specClampParams
              \<lparr>effectType = fractal, intensity = 31, scale = 5, iterations = 3, seed = 42\<rparr>)
           (map of_nat [0..<240])
   \<and> process 2 1 \<lparr>effectType = chromatic, intensity = 5, scale = 50, iterations = 0, seed = 42\<rparr>
         [0, 0, 0, 255, 100, 0, 0, 255]
       \<noteq> process 2 1
           (specClampParams
              \<lparr>effectType = chromatic, intensity = 5, scale = 50, iterations = 0, seed = 42\<rparr>)
           [0, 0, 0, 255, 100, 0, 0, 255]"
proof (intro conjI allI impI)
  show "process w h p d =
     (case effectType p of
        chromatic \<Rightarrow> applyChromaticAberration w h p d
      | fractal \<Rightarrow> applyFractalDisplacement w h p d
      | cellular \<Rightarrow> applyCellularAutomata w h p d
      | wave \<Rightarrow> applyWaveDistortion w h p d
      | noise \<Rightarrow> applyPerlinNoiseGlitch w h p d)"
    by (simp add: process_def)
next
  assume "inRange p"
  then show "process w h (specClampParams p) d = process w h p d"
    by (simp add: specClampParams_inRange)
next
  fix i :: int assume "100 < i"
  then show "process 1 1
           \<lparr>effectType = noise, intensity = real_of_int i, scale = 50, iterations = 1, seed = 42\<rparr>
           [0, 0, 0, 255]
         \<noteq> process 1 1
             (specClampParams
                \<lparr>effectType = noise, intensity = real_of_int i, scale = 50, iterations = 1, seed = 42\<rparr>)
             [0, 0, 0, 255]"
    by (rule noise_above_range_differs)
next
  show "process 60 1 \<lparr>effectType = fractal, intensity = 31, scale = 5, iterations = 3, seed = 42\<rparr>
         (map of_nat [0..<240])
       \<noteq> process 60 1
           (specClampParams
              \<lparr>effectType = fractal, intensity = 31, scale = 5, iterations = 3, seed = 42\<rparr>)
           (map of_nat [0..<240])"
    by (rule scale_below_range_differs)
next
  show "process 2 1 \<lparr>effectType = chromatic, intensity = 5, scale = 50, iterations = 0, seed = 42\<rparr>
         [0, 0, 0, 255, 100, 0, 0, 255]
       \<noteq> process 2 1
           (specClampParams
              \<lparr>effectType = chromatic, intensity = 5, scale = 50, iterations = 0, seed = 42\<rparr>)
           [0, 0, 0, 255, 100, 0, 0, 255]"
    by (rule iterations_below_range_differs)
qed

theorem process_passes_params_witness:
  "inRange \<lparr>effectType = noise, intensity = 100, scale = 50, iterations = 1, seed = 42\<rparr>
   \<and> process 1 1 (specClampParams \<lparr>effectType = noise, intensity = 100, scale = 50, iterations = 1, seed = 42\<rparr>)
        [0, 0, 0, 255]
     = process 1 1 \<lparr>effectType = noise, intensity = 100, scale = 50, iterations = 1, seed = 42\<rparr>
        [0, 0, 0, 255]
   \<and> (100::int) < 150
   \<and> process 1 1
        \<lparr>effectType = noise, intensity = real_of_int 150, scale = 50, iterations = 1, seed = 42\<rparr>
        [0, 0, 0, 255]
     \<noteq> process 1 1
         (specClampParams
            \<lparr>effectType = noise, intensity = real_of_int 150, scale = 50, iterations = 1, seed = 42\<rparr>)
         [0, 0, 0, 255]"
proof -
  let ?p = "\<lparr>effectType = noise, intensity = 100, scale = 50, iterations = 1, seed = 42\<rparr>"
  let ?d = "[0, 0, 0, 255] :: byte list"
  have r: "inRange ?p" by (simp add: inRange_def)
  note t = process_passes_params [where p = ?p and w = 1 and h = 1 and d = ?d]
  have a: "process 1 1 (specClampParams ?p) ?d = process 1 1 ?p ?d" using t r by blast
  have lt: "(100::int) < 150" by simp
  have b: "process 1 1
        \<lparr>effectType = noise, intensity = real_of_int 150, scale = 50, iterations = 1, seed = 42\<rparr> ?d
     \<noteq> process 1 1
         (specClampParams
            \<lparr>effectType = noise, intensity = real_of_int 150, scale = 50, iterations = 1, seed = 42\<rparr>)
         ?d"
    using t lt by blast
  show ?thesis using r a lt b by blast
qed

text \<open>
  C4 (amended). The expression for blue has no lower clamp, but the store into the
  clamped byte array has: on one black opaque pixel with intensity 100 the colour shift is
  127, the expression is -63.5 and the stored blue byte is 0.
\<close>

theorem noise_blue_stored_clamped:
  "colorShift 1 1 \<lparr>effectType = noise, intensity = 100, scale = 50, iterations = 1, seed = 42\<rparr> 0 0
     = Some 127
   \<and> real (unat (applyPerlinNoiseGlitch 1 1
          \<lparr>effectType = noise, intensity = 100, scale = 50, iterations = 1, seed = 42\<rparr>
          [0, 0, 0, 255] ! 2))
     \<noteq> min 255 (0 - 127 * 100 / 200)"
proof -
  let ?p = "\<lparr>effectType = noise, intensity = 100, scale = 50, iterations = 1, seed = 42\<rparr>"
  let ?d = "[0, 0, 0, 255] :: byte list"
  have c: "colorShift 1 1 ?p 0 0 = Some 127"
    unfolding colorShift_def noise_black_value by simp
  have src: "noiseSrcIdx 1 1 ?p 0 0 = Some 0"
    by (rule noise_black_src) simp
  have blue: "noiseBlue ?d 1 1 ?p 0 0 = Some (- (127 / 2))"
    unfolding noiseBlue_def src noise_black_shift
    by (simp add: rdAt_def rd_def plus_def min255_def)
  have idx: "(0 * 1 + 0) * 4 + 2 = (2::nat)" by simp
  have "applyPerlinNoiseGlitch 1 1 ?p ?d ! ((0 * 1 + 0) * 4 + 2) = toUint8Clamp (noiseBlue ?d 1 1 ?p 0 0)"
    by (rule noise_nth(3)) simp_all
  then have "applyPerlinNoiseGlitch 1 1 ?p ?d ! 2 = toUint8Clamp (Some (- (127 / 2)))"
    unfolding idx blue .
  also have "\<dots> = 0" by (simp add: toUint8Clamp_def)
  finally have z: "applyPerlinNoiseGlitch 1 1 ?p ?d ! 2 = 0" .
  have "real (unat (0 :: byte)) \<noteq> min 255 (0 - 127 * 100 / 200)" by simp
  then show ?thesis unfolding z using c by blast
qed

text \<open>
  C4 as amended, over the double arithmetic: for every pixel of a well-formed buffer,
  in-range parameters and rounding to nearest, the noise value is a number and not
  negative, the sampled index lies in the buffer, and the red, green and blue bytes stored
  are the conversions of \<open>min (255, red + shift)\<close>, \<open>min (255, green + shift / 2)\<close> and
  \<open>min (255, blue - shift / 2)\<close>, where \<open>shift = colorShift * (intensity / 100)\<close>,
  \<open>colorShift = floor (noiseValue * 255)\<close> and every product, quotient, sum and difference
  is rounded. The conversion of the clamped byte array gives 0 below 0, 255 above 255 and
  otherwise the nearest integer, the even one at a tie; so the stored blue byte is 0
  whenever its expression is not positive.
\<close>

theorem noise_channels:
  assumes wf: "wellFormed w h d" and p: "inRange p" and xy: "x < w" "y < h"
    and fl: "nearest fl"
  shows "(\<exists>v s cs sh.
           noiseValueD fl w h p x y = Some v \<and> 0 \<le> v
         \<and> s = nat (diagSrcIdx w h x y \<lfloor>rnd fl (v * intensity p)\<rfloor>) \<and> s + 3 < length d
         \<and> cs = \<lfloor>rnd fl (v * 255)\<rfloor>
         \<and> sh = rnd fl (real_of_int cs * rnd fl (intensity p / 100))
         \<and> applyPerlinNoiseGlitchD fl w h p d ! ((y * w + x) * 4)
             = toUint8Clamp (Some (min 255 (rnd fl (real (unat (d ! s)) + sh))))
         \<and> applyPerlinNoiseGlitchD fl w h p d ! ((y * w + x) * 4 + 1)
             = toUint8Clamp (Some (min 255 (rnd fl (real (unat (d ! (s + 1))) + rnd fl (sh / 2)))))
         \<and> applyPerlinNoiseGlitchD fl w h p d ! ((y * w + x) * 4 + 2)
             = toUint8Clamp (Some (min 255 (rnd fl (real (unat (d ! (s + 2))) - rnd fl (sh / 2)))))
         \<and> (rnd fl (real (unat (d ! (s + 2))) - rnd fl (sh / 2)) \<le> 0
              \<longrightarrow> applyPerlinNoiseGlitchD fl w h p d ! ((y * w + x) * 4 + 2) = 0))
       \<and> (\<forall>r. 0 \<le> r \<and> r \<le> 255 \<longrightarrow>
              \<bar>real (unat (toUint8Clamp (Some r))) - r\<bar> \<le> 1 / 2
            \<and> (\<bar>real (unat (toUint8Clamp (Some r))) - r\<bar> = 1 / 2
                 \<longrightarrow> even (unat (toUint8Clamp (Some r)))))
       \<and> (\<forall>r. r \<le> 0 \<longrightarrow> toUint8Clamp (Some r) = 0)
       \<and> (\<forall>r. 255 \<le> r \<longrightarrow> toUint8Clamp (Some r) = 255)"
proof (intro conjI)
  have n: "1 \<le> iterationCount p" using p by (rule iterationCount_pos)
  have len: "length d = w * h * 4" and w0: "0 < w" and h0: "0 < h"
    using wf by (simp_all add: wellFormed_def)
  obtain v where v: "noiseValueD fl w h p x y = Some v" "0 \<le> v"
    using noiseValueD_nonneg [OF fl n] by blast
  define k where "k = \<lfloor>rnd fl (v * intensity p)\<rfloor>"
  define s where "s = diagSrcIdx w h x y k"
  define cs where "cs = \<lfloor>rnd fl (v * 255)\<rfloor>"
  define sh where "sh = rnd fl (real_of_int cs * rnd fl (intensity p / 100))"
  have "0 \<le> v * intensity p" using v(2) p by (simp add: inRange_def)
  then have "0 \<le> rnd fl (v * intensity p)" by (rule rnd_nonneg [OF fl])
  then have k0: "0 \<le> k" by (simp add: k_def)
  have sb: "0 \<le> s" "s + 3 < int (length d)"
    using diagSrcIdx_bounds [OF w0 h0 k0, of x y] by (simp_all add: s_def len)
  have src: "noiseSrcIdxD fl w h p x y = Some s"
    by (simp add: noiseSrcIdxD_def v(1) s_def k_def)
  have sa: "shiftAmountD fl w h p x y = Some sh"
    by (simp add: shiftAmountD_def colorShiftD_def v(1) sh_def cs_def)
  have r0: "rdAt d (Some s) 0 = Some (real (unat (d ! nat s)))"
    using rdAt_in_range [OF sb, of 0] by simp
  have r1: "rdAt d (Some s) 1 = Some (real (unat (d ! (nat s + 1))))"
    using rdAt_in_range [OF sb, of 1] by simp
  have r2: "rdAt d (Some s) 2 = Some (real (unat (d ! (nat s + 2))))"
    using rdAt_in_range [OF sb, of 2] by simp
  have red: "applyPerlinNoiseGlitchD fl w h p d ! ((y * w + x) * 4)
             = toUint8Clamp (Some (min 255 (rnd fl (real (unat (d ! nat s)) + sh))))"
    unfolding noiseD_nth(1) [OF xy len] src sa r0
    by (simp add: plusD_def min255_def)
  have green: "applyPerlinNoiseGlitchD fl w h p d ! ((y * w + x) * 4 + 1)
             = toUint8Clamp (Some (min 255 (rnd fl (real (unat (d ! (nat s + 1))) + rnd fl (sh / 2)))))"
    unfolding noiseD_nth(2) [OF xy len] src sa r1
    by (simp add: plusD_def min255_def)
  have blue: "applyPerlinNoiseGlitchD fl w h p d ! ((y * w + x) * 4 + 2)
             = toUint8Clamp (Some (min 255 (rnd fl (real (unat (d ! (nat s + 2))) - rnd fl (sh / 2)))))"
    unfolding noiseD_nth(3) [OF xy len] src sa r2
    by (simp add: minusD_def min255_def)
  have low: "rnd fl (real (unat (d ! (nat s + 2))) - rnd fl (sh / 2)) \<le> 0
              \<longrightarrow> applyPerlinNoiseGlitchD fl w h p d ! ((y * w + x) * 4 + 2) = 0"
    unfolding blue by (simp add: toUint8Clamp_def min_def)
  have sl: "nat s + 3 < length d" using sb by linarith
  show "\<exists>v s cs sh.
           noiseValueD fl w h p x y = Some v \<and> 0 \<le> v
         \<and> s = nat (diagSrcIdx w h x y \<lfloor>rnd fl (v * intensity p)\<rfloor>) \<and> s + 3 < length d
         \<and> cs = \<lfloor>rnd fl (v * 255)\<rfloor>
         \<and> sh = rnd fl (real_of_int cs * rnd fl (intensity p / 100))
         \<and> applyPerlinNoiseGlitchD fl w h p d ! ((y * w + x) * 4)
             = toUint8Clamp (Some (min 255 (rnd fl (real (unat (d ! s)) + sh))))
         \<and> applyPerlinNoiseGlitchD fl w h p d ! ((y * w + x) * 4 + 1)
             = toUint8Clamp (Some (min 255 (rnd fl (real (unat (d ! (s + 1))) + rnd fl (sh / 2)))))
         \<and> applyPerlinNoiseGlitchD fl w h p d ! ((y * w + x) * 4 + 2)
             = toUint8Clamp (Some (min 255 (rnd fl (real (unat (d ! (s + 2))) - rnd fl (sh / 2)))))
         \<and> (rnd fl (real (unat (d ! (s + 2))) - rnd fl (sh / 2)) \<le> 0
              \<longrightarrow> applyPerlinNoiseGlitchD fl w h p d ! ((y * w + x) * 4 + 2) = 0)"
    using v sl red green blue low unfolding s_def k_def sh_def cs_def by blast
next
  show "\<forall>r. 0 \<le> r \<and> r \<le> 255 \<longrightarrow>
              \<bar>real (unat (toUint8Clamp (Some r))) - r\<bar> \<le> 1 / 2
            \<and> (\<bar>real (unat (toUint8Clamp (Some r))) - r\<bar> = 1 / 2
                 \<longrightarrow> even (unat (toUint8Clamp (Some r))))"
  proof (intro allI impI)
    fix r :: real assume "0 \<le> r \<and> r \<le> 255"
    then show "\<bar>real (unat (toUint8Clamp (Some r))) - r\<bar> \<le> 1 / 2
            \<and> (\<bar>real (unat (toUint8Clamp (Some r))) - r\<bar> = 1 / 2
                 \<longrightarrow> even (unat (toUint8Clamp (Some r))))"
      using toUint8Clamp_nearest [of r] by simp
  qed
next
  show "\<forall>r. r \<le> 0 \<longrightarrow> toUint8Clamp (Some r) = 0" by (simp add: toUint8Clamp_def)
next
  show "\<forall>r. 255 \<le> r \<longrightarrow> toUint8Clamp (Some r) = 255" by (simp add: toUint8Clamp_def)
qed

theorem noise_channels_witness:
  "wellFormed 1 1 [0, 1, 0, 255]
   \<and> inRange \<lparr>effectType = noise, intensity = 100, scale = 50, iterations = 1, seed = 42\<rparr>
   \<and> nearest exactOps
   \<and> applyPerlinNoiseGlitchD exactOps 1 1
        \<lparr>effectType = noise, intensity = 100, scale = 50, iterations = 1, seed = 42\<rparr>
        [0, 1, 0, 255] ! 1 = 64
   \<and> applyPerlinNoiseGlitchD exactOps 1 1
        \<lparr>effectType = noise, intensity = 100, scale = 50, iterations = 1, seed = 42\<rparr>
        [0, 0, 0, 255] ! 1 = 64
   \<and> applyPerlinNoiseGlitchD exactOps 1 1
        \<lparr>effectType = noise, intensity = 100, scale = 50, iterations = 1, seed = 42\<rparr>
        [0, 0, 0, 255] ! 2 = 0
   \<and> \<bar>real (unat (toUint8Clamp (Some (129 / 2)))) - 129 / 2\<bar> \<le> 1 / 2"
proof -
  let ?p = "\<lparr>effectType = noise, intensity = 100, scale = 50, iterations = 1, seed = 42\<rparr>"
  let ?a = "[0, 1, 0, 255] :: byte list"
  let ?b = "[0, 0, 0, 255] :: byte list"
  have wa: "wellFormed 1 1 ?a" and wb: "wellFormed 1 1 ?b" by (simp_all add: wellFormed_def)
  have p: "inRange ?p" by (simp add: inRange_def)
  have z: "(0::nat) < 1" by simp
  have nv: "noiseValueD exactOps 1 1 ?p 0 0 = Some (1 / 2)"
    unfolding noiseValueD_exact by (rule noise_black_value)
  have i1: "(0 * 1 + 0) * 4 + 1 = (1::nat)" and i2: "(0 * 1 + 0) * 4 + 2 = (2::nat)" by simp_all
  have h1: "roundHalfEven (129 / 2) = 64" and h2: "roundHalfEven (127 / 2) = 64"
    by (simp_all add: roundHalfEven_def Let_def)
  note ta = noise_channels [OF wa p z z nearest_exactOps]
  note tb = noise_channels [OF wb p z z nearest_exactOps]
  obtain v s cs sh where
    a: "noiseValueD exactOps 1 1 ?p 0 0 = Some v"
       "s = nat (diagSrcIdx 1 1 0 0 \<lfloor>rnd exactOps (v * intensity ?p)\<rfloor>)"
       "cs = \<lfloor>rnd exactOps (v * 255)\<rfloor>"
       "sh = rnd exactOps (real_of_int cs * rnd exactOps (intensity ?p / 100))"
       "applyPerlinNoiseGlitchD exactOps 1 1 ?p ?a ! ((0 * 1 + 0) * 4 + 1)
          = toUint8Clamp (Some (min 255 (rnd exactOps (real (unat (?a ! (s + 1))) + rnd exactOps (sh / 2)))))"
    using ta by blast
  have av: "v = 1 / 2" using a(1) nv by simp
  have as: "s = 0" unfolding a(2) av by (simp add: diagSrcIdx_def jsrem_def exactOps_sel)
  have ash: "sh = 127" unfolding a(4) a(3) av by (simp add: exactOps_sel)
  have "rnd exactOps (real (unat (?a ! (s + 1))) + rnd exactOps (sh / 2)) = 129 / 2"
    unfolding as ash by (simp add: exactOps_sel)
  then have "applyPerlinNoiseGlitchD exactOps 1 1 ?p ?a ! ((0 * 1 + 0) * 4 + 1)
               = toUint8Clamp (Some (min 255 (129 / 2)))"
    using a(5) by (simp only:)
  then have ga: "applyPerlinNoiseGlitchD exactOps 1 1 ?p ?a ! 1 = 64"
    unfolding i1 by (simp add: toUint8Clamp_def h1)
  obtain v' s' cs' sh' where
    b: "noiseValueD exactOps 1 1 ?p 0 0 = Some v'"
       "s' = nat (diagSrcIdx 1 1 0 0 \<lfloor>rnd exactOps (v' * intensity ?p)\<rfloor>)"
       "cs' = \<lfloor>rnd exactOps (v' * 255)\<rfloor>"
       "sh' = rnd exactOps (real_of_int cs' * rnd exactOps (intensity ?p / 100))"
       "applyPerlinNoiseGlitchD exactOps 1 1 ?p ?b ! ((0 * 1 + 0) * 4 + 1)
          = toUint8Clamp (Some (min 255 (rnd exactOps (real (unat (?b ! (s' + 1))) + rnd exactOps (sh' / 2)))))"
       "rnd exactOps (real (unat (?b ! (s' + 2))) - rnd exactOps (sh' / 2)) \<le> 0
          \<longrightarrow> applyPerlinNoiseGlitchD exactOps 1 1 ?p ?b ! ((0 * 1 + 0) * 4 + 2) = 0"
    using tb by blast
  have bv: "v' = 1 / 2" using b(1) nv by simp
  have bs: "s' = 0" unfolding b(2) bv by (simp add: diagSrcIdx_def jsrem_def exactOps_sel)
  have bsh: "sh' = 127" unfolding b(4) b(3) bv by (simp add: exactOps_sel)
  have "rnd exactOps (real (unat (?b ! (s' + 1))) + rnd exactOps (sh' / 2)) = 127 / 2"
    unfolding bs bsh by (simp add: exactOps_sel)
  then have "applyPerlinNoiseGlitchD exactOps 1 1 ?p ?b ! ((0 * 1 + 0) * 4 + 1)
               = toUint8Clamp (Some (min 255 (127 / 2)))"
    using b(5) by (simp only:)
  then have gb: "applyPerlinNoiseGlitchD exactOps 1 1 ?p ?b ! 1 = 64"
    unfolding i1 by (simp add: toUint8Clamp_def h2)
  have "rnd exactOps (real (unat (?b ! (s' + 2))) - rnd exactOps (sh' / 2)) \<le> 0"
    unfolding bs bsh by (simp add: exactOps_sel)
  with b(6) have "applyPerlinNoiseGlitchD exactOps 1 1 ?p ?b ! ((0 * 1 + 0) * 4 + 2) = 0" by blast
  then have bb: "applyPerlinNoiseGlitchD exactOps 1 1 ?p ?b ! 2 = 0" unfolding i2 .
  have "(0::real) \<le> 129 / 2 \<and> (129 / 2 :: real) \<le> 255" by simp
  then have rr: "\<bar>real (unat (toUint8Clamp (Some (129 / 2)))) - 129 / 2\<bar> \<le> 1 / 2"
    using ta by blast
  show ?thesis using wa p nearest_exactOps ga gb bb rr by blast
qed

text \<open>
  C5. With intensity 0 and in-range scale and iterations, the fractal, wave and noise
  effects return the input buffer unchanged; every displacement is 0 and the colour shift
  of the noise effect vanishes.
\<close>

theorem intensity_zero_identity:
  assumes "wellFormed w h d" and "inRange p" and "intensity p = 0"
  shows "(effectType p = fractal \<or> effectType p = wave \<or> effectType p = noise
            \<longrightarrow> process w h p d = d)
       \<and> (\<forall>x<w. \<forall>y<h. fractalDisplacement w h p x y = Some 0
              \<and> waveDisplace w h p x y = (0, 0)
              \<and> (\<exists>v. noiseValue w h p x y = Some v \<and> \<lfloor>v * intensity p\<rfloor> = 0
                    \<and> real_of_int \<lfloor>v * 255\<rfloor> * (intensity p / 100) = 0))"
proof
  have n: "1 \<le> iterationCount p" using assms(2) by (rule iterationCount_pos)
  show "effectType p = fractal \<or> effectType p = wave \<or> effectType p = noise
            \<longrightarrow> process w h p d = d"
    using fractal_identity [OF assms(1) n assms(3)] wave_identity [OF assms(1,3)]
      noise_identity [OF assms(1) n assms(3)]
    by (auto simp add: process_def)
  show "\<forall>x<w. \<forall>y<h. fractalDisplacement w h p x y = Some 0
              \<and> waveDisplace w h p x y = (0, 0)
              \<and> (\<exists>v. noiseValue w h p x y = Some v \<and> \<lfloor>v * intensity p\<rfloor> = 0
                    \<and> real_of_int \<lfloor>v * 255\<rfloor> * (intensity p / 100) = 0)"
  proof (intro allI impI conjI)
    fix x y
    show "fractalDisplacement w h p x y = Some 0"
      using n assms(3) by (simp add: fractalDisplacement_def Let_def)
    show "waveDisplace w h p x y = (0, 0)" using assms(3) by (rule waveDisplace_zero)
    obtain v where "noiseValue w h p x y = Some v" using noiseValue_range [OF n] by blast
    then show "\<exists>v. noiseValue w h p x y = Some v \<and> \<lfloor>v * intensity p\<rfloor> = 0
                    \<and> real_of_int \<lfloor>v * 255\<rfloor> * (intensity p / 100) = 0"
      using assms(3) by simp
  qed
qed

theorem intensity_zero_identity_witness:
  "wellFormed 1 1 [10, 20, 30, 255]
   \<and> inRange \<lparr>effectType = noise, intensity = 0, scale = 50, iterations = 8, seed = 42\<rparr>
   \<and> process 1 1 \<lparr>effectType = noise, intensity = 0, scale = 50, iterations = 8, seed = 42\<rparr>
        [10, 20, 30, 255] = [10, 20, 30, 255]
   \<and> fractalDisplacement 1 1
        \<lparr>effectType = noise, intensity = 0, scale = 50, iterations = 8, seed = 42\<rparr> 0 0 = Some 0"
  using intensity_zero_identity
          [of 1 1 "[10, 20, 30, 255]"
              "\<lparr>effectType = noise, intensity = 0, scale = 50, iterations = 8, seed = 42\<rparr>"]
  by (simp add: wellFormed_def inRange_def)

text \<open>
  C7 (amended). The code floors \<open>intensity * 0.2\<close> before it scales by
  \<open>(i + 1) / n\<close>: with intensity 9 and three iterations the offset of iteration 1 is 0,
  the formula of the specification gives 1.
\<close>

theorem chromaOffset_counterexample:
  "chromaOffset \<lparr>effectType = chromatic, intensity = 9, scale = 50, iterations = 3, seed = 42\<rparr> 1
     \<noteq> \<lfloor>(9::real) * 0.2 * (1 + 1) / 3\<rfloor>"
  by (simp add: chromaOffset_def offsetAmount_def iterationCount_def)

text \<open>
  C7 as amended: the offset of iteration \<open>i\<close> is
  \<open>floor (floor (intensity * 0.2) * (i + 1) / n)\<close>, an integer division; it is the formula
  of the specification when the intensity is a multiple of 5.
\<close>

theorem chromaOffset_nested_floor:
  assumes "inRange p" and "int i < iterationCount p"
  shows "chromaOffset p i = (\<lfloor>intensity p / 5\<rfloor> * (int i + 1)) div iterationCount p
       \<and> (intensity p = 5 * real_of_int m \<longrightarrow>
            chromaOffset p i = \<lfloor>intensity p * 0.2 * (real i + 1) / real_of_int (iterationCount p)\<rfloor>)"
proof
  show "chromaOffset p i = (\<lfloor>intensity p / 5\<rfloor> * (int i + 1)) div iterationCount p"
  proof -
    have "offsetAmount p = \<lfloor>intensity p / 5\<rfloor>"
      by (simp add: offsetAmount_def)
    then show ?thesis
      unfolding chromaOffset_def by (simp only: floor_divide_of_int_eq)
  qed
next
  show "intensity p = 5 * real_of_int m \<longrightarrow>
            chromaOffset p i = \<lfloor>intensity p * 0.2 * (real i + 1) / real_of_int (iterationCount p)\<rfloor>"
  proof
    assume h: "intensity p = 5 * real_of_int m"
    have "\<lfloor>intensity p * 0.2\<rfloor> = m"
      using h by simp
    then have "real_of_int (offsetAmount p * (int i + 1)) = intensity p * 0.2 * (real i + 1)"
      using h by (simp add: offsetAmount_def)
    then show "chromaOffset p i = \<lfloor>intensity p * 0.2 * (real i + 1) / real_of_int (iterationCount p)\<rfloor>"
      unfolding chromaOffset_def by (simp only:)
  qed
qed

theorem chromaOffset_nested_floor_witness:
  "inRange \<lparr>effectType = chromatic, intensity = 85, scale = 60, iterations = 16, seed = 42\<rparr>
   \<and> chromaOffset \<lparr>effectType = chromatic, intensity = 85, scale = 60, iterations = 16, seed = 42\<rparr> 3 = 4"
  using chromaOffset_nested_floor [of "\<lparr>effectType = chromatic, intensity = 85, scale = 60, iterations = 16, seed = 42\<rparr>" 3 17]
  by (simp add: inRange_def iterationCount_def)

text \<open>
  C8 (the code departs from it). Wave distortion on a buffer 1 pixel wide and 2 high,
  fully opaque, with intensity 15, scale 100 and one harmonic: for the destination (0, 1)
  the horizontal displacement is \<open>1.5 * sin 5\<close>, below -1, the sampled column is -1 and
  the read falls before the buffer, so the alpha byte stored is 0 and not the alpha 255 of
  a source pixel.
\<close>

theorem wave_alpha_lost:
  "waveSrcX 1 2 \<lparr>effectType = wave, intensity = 15, scale = 100, iterations = 1, seed = 0\<rparr> 0 1 = - 1
   \<and> applyWaveDistortion 1 2
        \<lparr>effectType = wave, intensity = 15, scale = 100, iterations = 1, seed = 0\<rparr>
        [0, 0, 0, 255, 0, 0, 0, 255] ! 7 = 0"
proof -
  let ?p = "\<lparr>effectType = wave, intensity = 15, scale = 100, iterations = 1, seed = 0\<rparr>"
  let ?d = "[0, 0, 0, 255, 0, 0, 0, 255] :: byte list"
  have "applyWaveDistortion 1 2 ?p ?d ! ((1 * 1 + 0) * 4 + 3)
          = toUint8Clamp (rd ?d (waveSrcIdx 1 2 ?p 0 1 + int 3))"
    by (rule wave_nth) simp_all
  moreover have "waveSrcIdx 1 2 ?p 0 1 = - 4"
    unfolding waveSrcIdx_def wave_escape_srcX wave_escape_srcY by simp
  ultimately have "applyWaveDistortion 1 2 ?p ?d ! ((1 * 1 + 0) * 4 + 3) = toUint8Clamp (rd ?d (- 4 + int 3))"
    by (simp only:)
  then have "applyWaveDistortion 1 2 ?p ?d ! 7 = 0"
    by (simp add: rd_def toUint8Clamp_def)
  then show ?thesis using wave_escape_srcX by (simp only: simp_thms)
qed

text \<open>
  C6, over the double arithmetic. In cellular evolution a cell on one of the four edges
  keeps the value of the initial grid through any number of generations; the three colour
  bytes stored for its pixel are \<open>Math.round (byte * (1 - cell * intensity / 100))\<close> with
  \<open>cell\<close> that initial value; and a generation gives every interior cell the value of the
  life rule read on the grid as it was before the generation.
\<close>

theorem cellular_border_and_snapshot:
  assumes wf: "wellFormed w h d" and xy: "x < w" "y < h"
    and border: "x = 0 \<or> y = 0 \<or> x = w - 1 \<or> y = h - 1"
  shows "(\<forall>n. (generation w h ^^ n) (initGridD fl w h d) ! (y * w + x)
               = initGridD fl w h d ! (y * w + x))
       \<and> (\<forall>c<3. applyCellularAutomataD fl w h p d ! ((y * w + x) * 4 + c)
                   = toUint8Clamp (Some (real_of_int (Math_round
                       (rnd fl (real (unat (d ! ((y * w + x) * 4 + c)))
                          * rnd fl (1 - rnd fl (rnd fl (real (initGridD fl w h d ! (y * w + x))
                                                         * intensity p) / 100))))))))
       \<and> (\<forall>g x' y'. length g = w * h \<and> 1 \<le> x' \<and> x' < w - 1 \<and> 1 \<le> y' \<and> y' < h - 1
              \<longrightarrow> generation w h g ! (y' * w + x') = lifeCell g w x' y')"
proof (intro conjI allI impI)
  fix n
  show "(generation w h ^^ n) (initGridD fl w h d) ! (y * w + x) = initGridD fl w h d ! (y * w + x)"
    using xy(1) border by (rule evolve_border)
next
  fix c :: nat assume c: "c < 3"
  have len: "length d = w * h * 4" using wf by (simp add: wellFormed_def)
  let ?g = "evolve w h p (initGridD fl w h d)"
  have lg: "length ?g = w * h" by (simp add: evolve_def length_evolve length_initGridD)
  have b: "(y * w + x) * 4 + 3 < w * h * 4" using xy by (rule pixel_bound)
  have i: "y * w + x < length ?g" using b lg by simp
  have j: "(y * w + x) * 4 + 2 < length d" using b len by simp
  have jc: "(y * w + x) * 4 + c < length d" using j c by simp
  have "applyCellularAutomataD fl w h p d ! ((y * w + x) * 4 + c)
          = toUint8Clamp (darkenD fl d p (?g ! (y * w + x)) ((y * w + x) * 4 + c))"
    unfolding applyCellularAutomataD_def using i j c by (rule recolorD_nth)
  moreover have "?g ! (y * w + x) = initGridD fl w h d ! (y * w + x)"
    unfolding evolve_def using xy(1) border by (rule evolve_border)
  ultimately have "applyCellularAutomataD fl w h p d ! ((y * w + x) * 4 + c)
          = toUint8Clamp (darkenD fl d p (initGridD fl w h d ! (y * w + x)) ((y * w + x) * 4 + c))"
    by simp
  also have "\<dots> = toUint8Clamp (Some (real_of_int (Math_round
                       (rnd fl (real (unat (d ! ((y * w + x) * 4 + c)))
                          * rnd fl (1 - rnd fl (rnd fl (real (initGridD fl w h d ! (y * w + x))
                                                         * intensity p) / 100)))))))"
    unfolding darkenD_def rd_in_range [OF jc] by simp
  finally show "applyCellularAutomataD fl w h p d ! ((y * w + x) * 4 + c)
                   = toUint8Clamp (Some (real_of_int (Math_round
                       (rnd fl (real (unat (d ! ((y * w + x) * 4 + c)))
                          * rnd fl (1 - rnd fl (rnd fl (real (initGridD fl w h d ! (y * w + x))
                                                         * intensity p) / 100)))))))" .
next
  fix g :: "nat list" and x' y'
  assume "length g = w * h \<and> 1 \<le> x' \<and> x' < w - 1 \<and> 1 \<le> y' \<and> y' < h - 1"
  then show "generation w h g ! (y' * w + x') = lifeCell g w x' y'"
    by (intro generation_interior) simp_all
qed

theorem cellular_border_and_snapshot_witness:
  "wellFormed 3 3 ([255, 255, 255, 255, 10, 20, 30, 255] @ replicate 28 0)
   \<and> (generation 3 3 ^^ 5)
         (initGridD exactOps 3 3 ([255, 255, 255, 255, 10, 20, 30, 255] @ replicate 28 0)) ! (0 * 3 + 0)
       = 1
   \<and> applyCellularAutomataD exactOps 3 3
         \<lparr>effectType = cellular, intensity = 50, scale = 50, iterations = 5, seed = 42\<rparr>
         ([255, 255, 255, 255, 10, 20, 30, 255] @ replicate 28 0) ! ((0 * 3 + 0) * 4 + 0) = 128
   \<and> applyCellularAutomataD exactOps 3 3
         \<lparr>effectType = cellular, intensity = 50, scale = 50, iterations = 5, seed = 42\<rparr>
         ([255, 255, 255, 255, 10, 20, 30, 255] @ replicate 28 0) ! ((0 * 3 + 1) * 4 + 0) = 10
   \<and> generation 3 3 [1, 1, 1, 0, 0, 0, 0, 0, 0] ! (1 * 3 + 1) = 1"
proof -
  let ?d = "[255, 255, 255, 255, 10, 20, 30, 255] @ replicate 28 0 :: byte list"
  let ?p = "\<lparr>effectType = cellular, intensity = 50, scale = 50, iterations = 5, seed = 42\<rparr>"
  let ?g = "[1, 1, 1, 0, 0, 0, 0, 0, 0] :: nat list"
  have wf: "wellFormed 3 3 ?d" by (simp add: wellFormed_def)
  have x0: "(0::nat) < 3" and x1: "(1::nat) < 3" by simp_all
  have b0: "(0::nat) = 0 \<or> (0::nat) = 0 \<or> (0::nat) = 3 - 1 \<or> (0::nat) = 3 - 1" by simp
  have b1: "(1::nat) = 0 \<or> (0::nat) = 0 \<or> (1::nat) = 3 - 1 \<or> (0::nat) = 3 - 1" by simp
  note t0 = cellular_border_and_snapshot [OF wf x0 x0 b0, where fl = exactOps and p = ?p]
  note t1 = cellular_border_and_snapshot [OF wf x1 x0 b1, where fl = exactOps and p = ?p]
  have "initGridD exactOps 3 3 ?d ! 0 = initCellD exactOps ?d 0"
    by (rule initGridD_nth) simp_all
  also have "\<dots> = 1"
    by (simp add: initCellD_def grayD_def rd_def exactOps_sel)
  finally have c0: "initGridD exactOps 3 3 ?d ! 0 = 1" .
  have "initGridD exactOps 3 3 ?d ! 1 = initCellD exactOps ?d 1"
    by (rule initGridD_nth) simp_all
  also have "\<dots> = 0"
    by (simp add: initCellD_def grayD_def rd_def exactOps_sel)
  finally have c1: "initGridD exactOps 3 3 ?d ! 1 = 0" .
  have i0: "0 * 3 + 0 = (0::nat)" and i1: "0 * 3 + 1 = (1::nat)" by simp_all
  have "(generation 3 3 ^^ 5) (initGridD exactOps 3 3 ?d) ! (0 * 3 + 0)
          = initGridD exactOps 3 3 ?d ! (0 * 3 + 0)"
    using t0 by blast
  then have a: "(generation 3 3 ^^ 5) (initGridD exactOps 3 3 ?d) ! (0 * 3 + 0) = 1"
    unfolding i0 c0 .
  have z3: "(0::nat) < 3" by simp
  have "applyCellularAutomataD exactOps 3 3 ?p ?d ! ((0 * 3 + 0) * 4 + 0)
          = toUint8Clamp (Some (real_of_int (Math_round
              (rnd exactOps (real (unat (?d ! ((0 * 3 + 0) * 4 + 0)))
                 * rnd exactOps (1 - rnd exactOps (rnd exactOps
                     (real (initGridD exactOps 3 3 ?d ! (0 * 3 + 0)) * intensity ?p) / 100)))))))"
    using t0 z3 by blast
  also have "\<dots> = 128"
    unfolding i0 c0 by (simp add: exactOps_sel Math_round_def toUint8Clamp_def roundHalfEven_def)
  finally have w: "applyCellularAutomataD exactOps 3 3 ?p ?d ! ((0 * 3 + 0) * 4 + 0) = 128" .
  have "applyCellularAutomataD exactOps 3 3 ?p ?d ! ((0 * 3 + 1) * 4 + 0)
          = toUint8Clamp (Some (real_of_int (Math_round
              (rnd exactOps (real (unat (?d ! ((0 * 3 + 1) * 4 + 0)))
                 * rnd exactOps (1 - rnd exactOps (rnd exactOps
                     (real (initGridD exactOps 3 3 ?d ! (0 * 3 + 1)) * intensity ?p) / 100)))))))"
    using t1 z3 by blast
  also have "\<dots> = 10"
    unfolding i1 c1 by (simp add: exactOps_sel Math_round_def toUint8Clamp_def roundHalfEven_def)
  finally have k: "applyCellularAutomataD exactOps 3 3 ?p ?d ! ((0 * 3 + 1) * 4 + 0) = 10" .
  have "length ?g = 3 * 3 \<and> (1::nat) \<le> 1 \<and> (1::nat) < 3 - 1 \<and> (1::nat) \<le> 1 \<and> (1::nat) < 3 - 1"
    by simp
  then have "generation 3 3 ?g ! (1 * 3 + 1) = lifeCell ?g 3 1 1" using t0 by blast
  moreover have "lifeCell ?g 3 1 1 = 1" by (simp add: lifeCell_def neighbors_def)
  ultimately have c: "generation 3 3 ?g ! (1 * 3 + 1) = 1" by simp
  show ?thesis using wf a w k c by blast
qed

text \<open>
  C10. Iteration \<open>i\<close> of chromatic displacement changes only bytes of channel
  \<open>i mod 3\<close>; with one iteration the green and blue bytes of the output are those of the
  input, with two iterations the blue bytes are.
\<close>

theorem chromatic_channel_per_iteration:
  shows "(\<forall>j. j mod 4 \<noteq> i mod 3 \<longrightarrow> chromaIteration d w h p i a ! j = a ! j)
       \<and> length (chromaIteration d w h p i a) = length a
       \<and> (iterationCount p = 1 \<longrightarrow>
            (\<forall>q. applyChromaticAberration w h p d ! (q * 4 + 1) = d ! (q * 4 + 1)
                \<and> applyChromaticAberration w h p d ! (q * 4 + 2) = d ! (q * 4 + 2)))
       \<and> (iterationCount p = 2 \<longrightarrow>
            (\<forall>q. applyChromaticAberration w h p d ! (q * 4 + 2) = d ! (q * 4 + 2)))"
proof (intro conjI impI allI)
  fix j assume "j mod 4 \<noteq> i mod 3"
  then show "chromaIteration d w h p i a ! j = a ! j" by (rule chromaIteration_frame)
next
  show "length (chromaIteration d w h p i a) = length a" by (rule length_chromaIteration)
next
  fix q assume n: "iterationCount p = 1"
  have one: "\<And>k. int k < iterationCount p \<Longrightarrow> k mod 3 = 0" using n by simp
  show "applyChromaticAberration w h p d ! (q * 4 + 1) = d ! (q * 4 + 1)"
  proof (rule chromatic_frame, intro allI impI)
    fix k assume "int k < iterationCount p"
    then have "k mod 3 = 0" by (rule one)
    then show "(q * 4 + 1) mod 4 \<noteq> k mod 3" using mod4_offset [of 1 q] by simp
  qed
  show "applyChromaticAberration w h p d ! (q * 4 + 2) = d ! (q * 4 + 2)"
  proof (rule chromatic_frame, intro allI impI)
    fix k assume "int k < iterationCount p"
    then have "k mod 3 = 0" by (rule one)
    then show "(q * 4 + 2) mod 4 \<noteq> k mod 3" using mod4_offset [of 2 q] by simp
  qed
next
  fix q assume n: "iterationCount p = 2"
  show "applyChromaticAberration w h p d ! (q * 4 + 2) = d ! (q * 4 + 2)"
  proof (rule chromatic_frame, intro allI impI)
    fix k assume "int k < iterationCount p"
    then have "k < 2" using n by simp
    then have "k mod 3 < 2" by simp
    then show "(q * 4 + 2) mod 4 \<noteq> k mod 3" using mod4_offset [of 2 q] by simp
  qed
qed

theorem chromatic_channel_per_iteration_witness:
  "applyChromaticAberration 1 1
      \<lparr>effectType = chromatic, intensity = 50, scale = 50, iterations = 1, seed = 42\<rparr>
      [10, 20, 30, 255] ! (0 * 4 + 1) = [10, 20, 30, 255] ! (0 * 4 + 1)
   \<and> applyChromaticAberration 1 1
      \<lparr>effectType = chromatic, intensity = 50, scale = 50, iterations = 2, seed = 42\<rparr>
      [10, 20, 30, 255] ! (0 * 4 + 2) = [10, 20, 30, 255] ! (0 * 4 + 2)
   \<and> chromaIteration [10, 20, 30, 255] 1 1
      \<lparr>effectType = chromatic, intensity = 50, scale = 50, iterations = 2, seed = 42\<rparr> 1
      [10, 20, 30, 255] ! 2 = 30"
proof -
  let ?p1 = "\<lparr>effectType = chromatic, intensity = 50, scale = 50, iterations = 1, seed = 42\<rparr>"
  let ?p2 = "\<lparr>effectType = chromatic, intensity = 50, scale = 50, iterations = 2, seed = 42\<rparr>"
  let ?d = "[10, 20, 30, 255] :: byte list"
  have n1: "iterationCount ?p1 = 1" and n2: "iterationCount ?p2 = 2"
    by (simp_all add: iterationCount_def)
  have a: "applyChromaticAberration 1 1 ?p1 ?d ! (0 * 4 + 1) = ?d ! (0 * 4 + 1)"
    using chromatic_channel_per_iteration [where p = ?p1 and d = ?d and w = 1 and h = 1] n1 by blast
  have b: "applyChromaticAberration 1 1 ?p2 ?d ! (0 * 4 + 2) = ?d ! (0 * 4 + 2)"
    using chromatic_channel_per_iteration [where p = ?p2 and d = ?d and w = 1 and h = 1] n2 by blast
  have "(2::nat) mod 4 \<noteq> 1 mod 3" by simp
  then have "chromaIteration ?d 1 1 ?p2 1 ?d ! 2 = ?d ! 2"
    using chromatic_channel_per_iteration [where i = 1 and p = ?p2 and d = ?d and a = ?d and w = 1 and h = 1] by blast
  then have c: "chromaIteration ?d 1 1 ?p2 1 ?d ! 2 = 30" by simp
  show ?thesis using a b c by blast
qed

end
